theory Spec2Isabelle
  imports Complex_Main "HOL-Library.Sublist"
begin

section \<open>Paths\<close>

text \<open>
  The daemon handles three kinds of path values.
  \<^item> Remote (HDFS) paths and the relative paths computed from them are Python \<open>str\<close>:
    here \<open>string\<close>.
  \<^item> A \<open>pathlib.Path\<close> that is absolute is the list of its parts below \<open>/\<close>; it may still
    contain \<open>..\<close> parts (\<open>ppath\<close>).
  \<^item> A resolved path (\<open>Path.resolve()\<close>) is a list of parts without \<open>..\<close> (\<open>lpath\<close>); the
    nodes of the local file system are addressed by resolved paths.

  The local file system has no symbolic links, so \<open>resolve\<close> is the lexical
  normalisation. POSIX keeps a path that begins with exactly two slashes under a root
  of its own; such names are read here like names with one leading slash.
\<close>

type_synonym ppath = "string list"
type_synonym lpath = "string list"

datatype exn =
    FileExistsError
  | NotADirectoryError
  | IsADirectoryError
  | FileNotFoundError
  | ValueError
  | OSError

text \<open>\<open>s.split("/")\<close>\<close>

fun split_sep :: "string \<Rightarrow> string list" where
  "split_sep [] = [[]]"
| "split_sep (c # cs) =
     (if c = CHR ''/'' then [] # split_sep cs
      else (case split_sep cs of [] \<Rightarrow> [[c]] | w # ws \<Rightarrow> (c # w) # ws))"

text \<open>\<open>sep.join(xs)\<close>\<close>

fun str_join :: "string \<Rightarrow> string list \<Rightarrow> string" where
  "str_join sep [] = []"
| "str_join sep [x] = x"
| "str_join sep (x # y # ys) = x @ sep @ str_join sep (y # ys)"

text \<open>\<open>a.startswith(b)\<close>\<close>

definition startswith :: "string \<Rightarrow> string \<Rightarrow> bool" where
  "startswith a b = prefix b a"

text \<open>The parts pathlib keeps when it parses a string: empty parts and \<open>.\<close> are dropped,
  \<open>..\<close> stays.\<close>

definition parts :: "string \<Rightarrow> string list" where
  "parts s = filter (\<lambda>c. c \<noteq> [] \<and> c \<noteq> ''.'') (split_sep s)"

definition is_abs :: "string \<Rightarrow> bool" where
  "is_abs s = (case s of [] \<Rightarrow> False | c # _ \<Rightarrow> c = CHR ''/'')"

text \<open>\<open>base / s\<close> for an absolute \<open>base\<close>: an absolute right operand replaces the left one.\<close>

definition joinpath :: "ppath \<Rightarrow> string \<Rightarrow> ppath" where
  "joinpath base s = (if is_abs s then parts s else base @ parts s)"

text \<open>\<open>Path.resolve()\<close>, and equally \<open>os.path.normpath\<close> on an absolute path: \<open>..\<close> drops
  the last part, and stays at \<open>/\<close> when there is none.\<close>

definition resolve :: "ppath \<Rightarrow> lpath" where
  "resolve ps = foldl (\<lambda>acc c. if c = ''..'' then butlast acc else acc @ [c]) [] ps"

text \<open>\<open>str(p)\<close> of an absolute path.\<close>

definition str_path :: "string list \<Rightarrow> string" where
  "str_path ps = (if ps = [] then ''/'' else concat (map (\<lambda>c. CHR ''/'' # c) ps))"

text \<open>\<open>os.path.abspath\<close> with the process's working directory \<open>cwd\<close>.\<close>

definition abspath :: "lpath \<Rightarrow> string \<Rightarrow> lpath" where
  "abspath cwd s = resolve (joinpath cwd s)"

text \<open>\<open>os.path.relpath(path, start)\<close>\<close>

definition relpath :: "lpath \<Rightarrow> string \<Rightarrow> string \<Rightarrow> exn + string" where
  "relpath cwd pth start =
     (if pth = [] then Inl ValueError
      else
        let start_list = abspath cwd start;
            path_list = abspath cwd pth;
            i = length (longest_common_prefix start_list path_list);
            rel_list = replicate (length start_list - i) ''..'' @ drop i path_list
        in if rel_list = [] then Inr ''.'' else Inr (str_join ''/'' rel_list))"

text \<open>\<open>p.parent\<close>: the parent of \<open>/\<close> is \<open>/\<close>.\<close>

definition parent :: "ppath \<Rightarrow> ppath" where
  "parent p = butlast p"

text \<open>\<open>p.with_suffix(p.suffix + ".tmp")\<close>: pathlib replaces the old suffix of the name by
  the new one, which here begins with the old one, so the name gains \<open>.tmp\<close>; a path
  with an empty name (\<open>/\<close>) raises \<open>ValueError\<close>.\<close>

definition with_tmp_suffix :: "ppath \<Rightarrow> exn + ppath" where
  "with_tmp_suffix p =
     (if p = [] then Inl ValueError else Inr (butlast p @ [last p @ ''.tmp'']))"

section \<open>The local file system\<close>

text \<open>
  Time stamps are seconds since the epoch, as \<open>datetime.timestamp()\<close> and \<open>st_mtime\<close>
  give them; Python compares the two floats as the numbers they denote.

  A file system is an association list from resolved paths to nodes, in the order in
  which the operating system lists entries. \<open>/\<close> is always a directory. The model
  does not keep the modification time of a directory: \<open>stat\<close> on a directory reads it
  from the environment.
\<close>

type_synonym timestamp = real

datatype node = File (file_data: string) (file_mtime: timestamp) | Dir

type_synonym fs = "(lpath \<times> node) list"

definition node_at :: "fs \<Rightarrow> lpath \<Rightarrow> node option" where
  "node_at f p = (if p = [] then Some Dir else map_of f p)"

definition is_dir :: "fs \<Rightarrow> lpath \<Rightarrow> bool" where
  "is_dir f p = (node_at f p = Some Dir)"

definition is_file :: "fs \<Rightarrow> lpath \<Rightarrow> bool" where
  "is_file f p = (case node_at f p of Some (File _ _) \<Rightarrow> True | _ \<Rightarrow> False)"

definition exists_path :: "fs \<Rightarrow> lpath \<Rightarrow> bool" where
  "exists_path f p = (node_at f p \<noteq> None)"

fun fs_put :: "lpath \<Rightarrow> node \<Rightarrow> fs \<Rightarrow> fs" where
  "fs_put p n [] = [(p, n)]"
| "fs_put p n ((q, m) # f) = (if q = p then (p, n) # f else (q, m) # fs_put p n f)"

definition fs_del :: "lpath \<Rightarrow> fs \<Rightarrow> fs" where
  "fs_del p f = filter (\<lambda>(q, _). q \<noteq> p) f"

text \<open>
  The operating system walks \<open>..\<close> through directories that exist. The paths the program
  hands to it hold \<open>..\<close> only right behind a directory the program has made before, so
  every operation below addresses the node at the lexically resolved path.
\<close>

text \<open>\<open>p.mkdir(parents=True, exist_ok=True)\<close>: fails when \<open>p\<close> or one of its ancestors is a
  regular file, and otherwise makes every missing directory on the way.\<close>

definition mkdir_parents :: "ppath \<Rightarrow> fs \<Rightarrow> exn + fs" where
  "mkdir_parents p f =
     (let q = resolve p in
      if is_file f q then Inl FileExistsError
      else if list_ex (is_file f) (prefixes q) then Inl NotADirectoryError
      else Inr (foldl (\<lambda>g a. if exists_path g a then g else fs_put a Dir g) f (prefixes q)))"

text \<open>\<open>open(p, "wb")\<close>: creates the file or truncates it; the time stamp is the clock
  \<open>t\<close> of the write.\<close>

definition open_wb :: "ppath \<Rightarrow> timestamp \<Rightarrow> fs \<Rightarrow> exn + fs" where
  "open_wb p t f =
     (let q = resolve p in
      if is_dir f q then Inl IsADirectoryError
      else if \<not> is_dir f (butlast q)
        then Inl (if exists_path f (butlast q) then NotADirectoryError else FileNotFoundError)
      else Inr (fs_put q (File [] t) f))"

text \<open>\<open>src.replace(dst)\<close>, that is \<open>os.replace\<close>, for a source that is a regular file (the
  program renames nothing else): the node moves to \<open>dst\<close> in one step, and a directory at
  \<open>dst\<close> is an error.\<close>

definition replace_path :: "ppath \<Rightarrow> ppath \<Rightarrow> fs \<Rightarrow> exn + fs" where
  "replace_path src dst f =
     (let a = resolve src; b = resolve dst in
      case node_at f a of
        None \<Rightarrow> Inl FileNotFoundError
      | Some Dir \<Rightarrow> Inl OSError
      | Some (File d t) \<Rightarrow>
          if is_dir f b then Inl IsADirectoryError
          else if \<not> is_dir f (butlast b)
            then Inl (if exists_path f (butlast b) then NotADirectoryError else FileNotFoundError)
          else Inr (fs_put b (File d t) (fs_del a f)))"

text \<open>\<open>p.unlink(missing_ok=True)\<close>: a missing path is ignored, a directory is an error.\<close>

definition unlink :: "ppath \<Rightarrow> fs \<Rightarrow> exn + fs" where
  "unlink p f =
     (let q = resolve p in
      case node_at f q of
        None \<Rightarrow> Inr f
      | Some Dir \<Rightarrow> Inl IsADirectoryError
      | Some (File _ _) \<Rightarrow> Inr (fs_del q f))"

text \<open>\<open>shutil.rmtree(q)\<close> on a directory: the directory goes with everything below it.\<close>

definition rmtree :: "lpath \<Rightarrow> fs \<Rightarrow> fs" where
  "rmtree q f = filter (\<lambda>(p, _). \<not> prefix q p) f"

text \<open>\<open>q.iterdir()\<close>: the names of the entries directly in the directory \<open>q\<close>.\<close>

definition iterdir :: "lpath \<Rightarrow> fs \<Rightarrow> exn + string list" where
  "iterdir q f =
     (if is_dir f q
      then Inr (map (\<lambda>(p, _). last p) (filter (\<lambda>(p, _). p \<noteq> [] \<and> butlast p = q) f))
      else Inl (if exists_path f q then NotADirectoryError else FileNotFoundError))"

text \<open>\<open>p.write_text(c)\<close>\<close>

definition write_text :: "ppath \<Rightarrow> string \<Rightarrow> timestamp \<Rightarrow> fs \<Rightarrow> exn + fs" where
  "write_text p c t f =
     (case open_wb p t f of
        Inl e \<Rightarrow> Inl e
      | Inr g \<Rightarrow> Inr (fs_put (resolve p) (File c t) g))"

section \<open>Remote file system and environment\<close>

datatype file_type = NotFound | Unknown | FileT | Directory

record file_info =
  path :: string
  ftype :: file_type
  mtime :: "timestamp option"

record model_entry =
  name :: string
  base_path :: string
  model_platform :: string
  version_labels :: "(string \<times> int) list option"
  version_policy :: "(string \<times> string) list option"

record model_config_list =
  model_config :: "model_entry list"

text \<open>
  What one cycle sees of the world outside the program. Each field stands for a call
  the program makes; \<open>Inl\<close> is the exception the call raises.
  \<^item> \<open>hdfs_type d\<close>: \<open>hdfs_fs.get_file_info(d).type\<close>
  \<^item> \<open>hdfs_list d\<close>: \<open>hdfs_fs.get_file_info(FileSelector(d, recursive=True))\<close>
  \<^item> \<open>hdfs_open p\<close>: \<open>hdfs_fs.open_input_file(p)\<close>, with the bytes the stream holds
  \<^item> \<open>copy_fault p\<close>: \<open>shutil.copyfileobj\<close> for the stream of \<open>p\<close>: \<open>None\<close> when it
    completes, \<open>Some k\<close> when it raises after \<open>k\<close> bytes have reached the staging file
  \<^item> \<open>write_time q\<close>: the local clock when the local file \<open>q\<close> is written
  \<^item> \<open>dir_mtime q\<close>: \<open>st_mtime\<close> of the local directory \<open>q\<close>
  \<^item> \<open>read_manifest\<close>: opening, reading and decoding the file at
    \<open>config.hdfs_model_config_path\<close>
  \<^item> \<open>yaml_parse c\<close>: \<open>yaml.safe_load\<close> followed by \<open>dacite.from_dict\<close>
  \<^item> \<open>cwd\<close>: \<open>os.getcwd()\<close>

  The \<open>FileLock\<close> around a cycle belongs to another package and is not part of the model;
  its marker is a regular file directly under the local model root.
\<close>

record env =
  hdfs_type :: "string \<Rightarrow> exn + file_type"
  hdfs_list :: "string \<Rightarrow> exn + file_info list"
  hdfs_open :: "string \<Rightarrow> exn + string"
  copy_fault :: "string \<Rightarrow> nat option"
  write_time :: "lpath \<Rightarrow> timestamp"
  dir_mtime :: "lpath \<Rightarrow> timestamp"
  read_manifest :: "exn + string"
  yaml_parse :: "string \<Rightarrow> exn + model_entry list"
  cwd :: lpath

section \<open>Program state and log\<close>

datatype event =
    Error_parse_failed
  | Error_copy_failed string exn
  | Warning_missing_hdfs_dir string
  | Warning_suspicious_path string
  | Info_copying string ppath
  | Debug_up_to_date ppath
  | Error_invalid_model_name string
  | Info_processing string
  | Info_removed string
  | Info_config_written
  | Info_cycle_started
  | Exception_in_cycle exn
  | Info_cycle_finished
  | Warning_loop_disabled
  | Info_starting_loop int
  | Info_sleeping int

record state =
  files :: fs
  logs :: "event list"

definition emit :: "event \<Rightarrow> state \<Rightarrow> state" where
  "emit ev s = s\<lparr>logs := logs s @ [ev]\<rparr>"

section \<open>Parsing the manifest\<close>

text \<open>\<open>_parse_model_config\<close>: any exception of the parser is logged and gives the default
  \<open>ModelConfigList()\<close>, whose list is empty.\<close>

definition parse_model_config :: "env \<Rightarrow> string \<Rightarrow> state \<Rightarrow> model_config_list \<times> state" where
  "parse_model_config E content s =
     (case yaml_parse E content of
        Inl e \<Rightarrow> (\<lparr>model_config = []\<rparr>, emit Error_parse_failed s)
      | Inr ms \<Rightarrow> (\<lparr>model_config = ms\<rparr>, s))"

section \<open>The update decision\<close>

text \<open>\<open>local_file.stat().st_mtime\<close> for an existing node.\<close>

definition st_mtime :: "env \<Rightarrow> lpath \<Rightarrow> node \<Rightarrow> timestamp" where
  "st_mtime E p n = (case n of File _ t \<Rightarrow> t | Dir \<Rightarrow> dir_mtime E p)"

definition should_update_file :: "env \<Rightarrow> file_info \<Rightarrow> ppath \<Rightarrow> fs \<Rightarrow> bool" where
  "should_update_file E file_info local_file f =
     (case mtime file_info of
        None \<Rightarrow> True
      | Some t \<Rightarrow>
          (case node_at f (resolve local_file) of
             Some n \<Rightarrow> t > st_mtime E (resolve local_file) n
           | None \<Rightarrow> True))"

section \<open>Atomic file transfer\<close>

text \<open>The \<open>except Exception\<close> block of \<open>_copy_file_atomically\<close>.\<close>

definition copy_failed :: "string \<Rightarrow> exn \<Rightarrow> ppath \<Rightarrow> state \<Rightarrow> exn option \<times> state" where
  "copy_failed hdfs_path e tmp_file s =
     (let s1 = emit (Error_copy_failed hdfs_path e) s in
      if exists_path (files s1) (resolve tmp_file)
      then (case unlink tmp_file (files s1) of
              Inl e' \<Rightarrow> (Some e', s1)
            | Inr f \<Rightarrow> (None, s1\<lparr>files := f\<rparr>))
      else (None, s1))"

text \<open>\<open>_copy_file_atomically\<close>. The result is the exception that leaves the function, if
  any, and the state it leaves behind.\<close>

definition copy_file_atomically ::
  "env \<Rightarrow> string \<Rightarrow> ppath \<Rightarrow> state \<Rightarrow> exn option \<times> state" where
  "copy_file_atomically E hdfs_path local_file s =
     (case mkdir_parents (parent local_file) (files s) of
        Inl e \<Rightarrow> (Some e, s)
      | Inr f1 \<Rightarrow>
          (case with_tmp_suffix local_file of
             Inl e \<Rightarrow> (Some e, s\<lparr>files := f1\<rparr>)
           | Inr tmp_file \<Rightarrow>
               (case hdfs_open E hdfs_path of
                  Inl e \<Rightarrow> copy_failed hdfs_path e tmp_file (s\<lparr>files := f1\<rparr>)
                | Inr bytes \<Rightarrow>
                    (let t = write_time E (resolve tmp_file) in
                     case open_wb tmp_file t f1 of
                       Inl e \<Rightarrow> copy_failed hdfs_path e tmp_file (s\<lparr>files := f1\<rparr>)
                     | Inr f2 \<Rightarrow>
                         (case copy_fault E hdfs_path of
                            Some k \<Rightarrow>
                              copy_failed hdfs_path OSError tmp_file
                                (s\<lparr>files := fs_put (resolve tmp_file) (File (take k bytes) t) f2\<rparr>)
                          | None \<Rightarrow>
                              (let f3 = fs_put (resolve tmp_file) (File bytes t) f2 in
                               case replace_path tmp_file local_file f3 of
                                 Inl e \<Rightarrow> copy_failed hdfs_path e tmp_file (s\<lparr>files := f3\<rparr>)
                               | Inr f4 \<Rightarrow> (None, s\<lparr>files := f4\<rparr>)))))))"

section \<open>The directory reconciler\<close>

text \<open>The loop of \<open>_sync_directory\<close> over the listing. \<open>lroot\<close> is \<open>self.local_model_root\<close>.\<close>

fun sync_files ::
  "env \<Rightarrow> lpath \<Rightarrow> string \<Rightarrow> lpath \<Rightarrow> file_info list \<Rightarrow> state \<Rightarrow> exn option \<times> state" where
  "sync_files E lroot hdfs_dir local_dir [] s = (None, s)"
| "sync_files E lroot hdfs_dir local_dir (file_info # rest) s =
     (if ftype file_info \<noteq> FileT then sync_files E lroot hdfs_dir local_dir rest s
      else
        (case relpath (cwd E) (path file_info) hdfs_dir of
           Inl e \<Rightarrow> (Some e, s)
         | Inr rel_path \<Rightarrow>
             (let local_file = joinpath local_dir rel_path in
              if \<not> startswith (str_path (resolve local_file)) (str_path lroot)
              then sync_files E lroot hdfs_dir local_dir rest
                     (emit (Warning_suspicious_path rel_path) s)
              else if should_update_file E file_info local_file (files s)
              then (case copy_file_atomically E (path file_info) local_file
                           (emit (Info_copying (path file_info) local_file) s) of
                      (Some e, s') \<Rightarrow> (Some e, s')
                    | (None, s') \<Rightarrow> sync_files E lroot hdfs_dir local_dir rest s')
              else sync_files E lroot hdfs_dir local_dir rest
                     (emit (Debug_up_to_date local_file) s))))"

definition sync_directory ::
  "env \<Rightarrow> lpath \<Rightarrow> string \<Rightarrow> lpath \<Rightarrow> state \<Rightarrow> exn option \<times> state" where
  "sync_directory E lroot hdfs_dir local_dir s =
     (case mkdir_parents local_dir (files s) of
        Inl e \<Rightarrow> (Some e, s)
      | Inr f1 \<Rightarrow>
          (let s1 = s\<lparr>files := f1\<rparr> in
           case hdfs_type E hdfs_dir of
             Inl e \<Rightarrow> (Some e, s1)
           | Inr ty \<Rightarrow>
               if ty \<noteq> Directory then (None, emit (Warning_missing_hdfs_dir hdfs_dir) s1)
               else
                 (case hdfs_list E hdfs_dir of
                    Inl e \<Rightarrow> (Some e, s1)
                  | Inr listing \<Rightarrow> sync_files E lroot hdfs_dir local_dir listing s1)))"

section \<open>The registry document\<close>

definition digit_char :: "nat \<Rightarrow> char" where
  "digit_char d = ''0123456789'' ! d"

fun digits :: "nat \<Rightarrow> string" where
  "digits n = (if n < 10 then [digit_char n] else digits (n div 10) @ [digit_char (n mod 10)])"

text \<open>\<open>str(v)\<close> of an \<open>int\<close>, as an f-string prints it.\<close>

definition str_int :: "int \<Rightarrow> string" where
  "str_int i = (if i < 0 then CHR ''-'' # digits (nat (- i)) else digits (nat i))"

definition dquote :: string where
  "dquote = [CHR 0x22]"

definition newline :: string where
  "newline = [CHR 0x0A]"

text \<open>Python's truth value of an \<open>Optional[Dict]\<close>: \<open>None\<close> and the empty dict are false.\<close>

definition truthy :: "'a list option \<Rightarrow> bool" where
  "truthy d = (case d of None \<Rightarrow> False | Some [] \<Rightarrow> False | Some (_ # _) \<Rightarrow> True)"

definition items :: "'a list option \<Rightarrow> 'a list" where
  "items d = (case d of None \<Rightarrow> [] | Some kvs \<Rightarrow> kvs)"

definition format_version_labels :: "(string \<times> int) list option \<Rightarrow> string" where
  "format_version_labels labels =
     (if \<not> truthy labels then []
      else
        (let label_lines =
               map (\<lambda>(k, v). ''      '' @ dquote @ k @ dquote @ '': '' @ str_int v) (items labels)
         in ''  version_labels {'' @ newline @ str_join ('','' @ newline) label_lines
              @ newline @ ''  }''))"

definition format_version_policy :: "(string \<times> string) list option \<Rightarrow> string" where
  "format_version_policy policy =
     (if \<not> truthy policy then []
      else
        (let policy_lines = map (\<lambda>(k, v). ''      '' @ k @ '': '' @ v) (items policy)
         in ''  version_policy {'' @ newline @ str_join newline policy_lines
              @ newline @ ''  }''))"

text \<open>The body of the loop over \<open>local_models\<close> in step 4 of \<open>run_once\<close>: the lines it
  appends to \<open>config_lines\<close> for one model.\<close>

definition append_model :: "string list \<Rightarrow> model_entry \<Rightarrow> string list" where
  "append_model config_lines m =
     (let l1 = config_lines @ [''  config {''];
          l2 = l1 @ [''    name: '' @ dquote @ name m @ dquote];
          l3 = l2 @ [''    base_path: '' @ dquote @ base_path m @ dquote];
          l4 = l3 @ [''    model_platform: '' @ dquote @ model_platform m @ dquote];
          l5 = (if truthy (version_labels m)
                then l4 @ [format_version_labels (version_labels m)] else l4);
          l6 = (if truthy (version_policy m)
                then l5 @ [format_version_policy (version_policy m)] else l5)
      in l6 @ [''  }''])"

definition config_lines :: "model_entry list \<Rightarrow> string list" where
  "config_lines local_models =
     foldl append_model [''model_config_list {''] local_models @ [''}'']"

definition config_document :: "model_entry list \<Rightarrow> string" where
  "config_document local_models = str_join newline (config_lines local_models)"

section \<open>One synchronisation cycle\<close>

text \<open>Step 2 of \<open>run_once\<close>: the loop over the manifest. A model's entry of
  \<open>local_models\<close> has the keys of the manifest entry, with the resolved local path as
  base path.\<close>

fun sync_models ::
  "env \<Rightarrow> lpath \<Rightarrow> model_entry list \<Rightarrow> model_entry list \<Rightarrow> state
     \<Rightarrow> (exn + model_entry list) \<times> state" where
  "sync_models E lroot [] local_models s = (Inr local_models, s)"
| "sync_models E lroot (model_entry # rest) local_models s =
     (let local_path = resolve (joinpath lroot (name model_entry)) in
      if \<not> startswith (str_path local_path) (str_path lroot)
      then sync_models E lroot rest local_models
             (emit (Error_invalid_model_name (name model_entry)) s)
      else
        (case sync_directory E lroot (base_path model_entry) local_path
                (emit (Info_processing (name model_entry)) s) of
           (Some e, s') \<Rightarrow> (Inl e, s')
         | (None, s') \<Rightarrow>
             sync_models E lroot rest
               (local_models @ [model_entry\<lparr>base_path := str_path local_path\<rparr>]) s'))"

text \<open>Step 3 of \<open>run_once\<close>: the loop over the entries of the local model root.\<close>

fun remove_deleted :: "lpath \<Rightarrow> string set \<Rightarrow> string list \<Rightarrow> state \<Rightarrow> state" where
  "remove_deleted lroot expected [] s = s"
| "remove_deleted lroot expected (item # rest) s =
     (if is_dir (files s) (lroot @ [item]) \<and> item \<notin> expected
      then remove_deleted lroot expected rest
             (emit (Info_removed item) (s\<lparr>files := rmtree (lroot @ [item]) (files s)\<rparr>))
      else remove_deleted lroot expected rest s)"

text \<open>Steps 3 and 4 of \<open>run_once\<close>.\<close>

definition finish_cycle ::
  "env \<Rightarrow> lpath \<Rightarrow> model_entry list \<Rightarrow> model_entry list \<Rightarrow> state \<Rightarrow> exn option \<times> state" where
  "finish_cycle E lroot hdfs_models local_models s =
     (case iterdir lroot (files s) of
        Inl e \<Rightarrow> (Some e, s)
      | Inr entries \<Rightarrow>
          (let expected = set (map name hdfs_models);
               s3 = remove_deleted lroot expected entries s;
               config_path = lroot @ [''models.config'']
           in case write_text config_path (config_document local_models)
                     (write_time E config_path) (files s3) of
                Inl e \<Rightarrow> (Some e, s3)
              | Inr f \<Rightarrow> (None, emit Info_config_written (s3\<lparr>files := f\<rparr>))))"

text \<open>The body of the \<open>try\<close> in \<open>run_once\<close>.\<close>

definition cycle_body :: "env \<Rightarrow> lpath \<Rightarrow> state \<Rightarrow> exn option \<times> state" where
  "cycle_body E lroot s =
     (case read_manifest E of
        Inl e \<Rightarrow> (Some e, s)
      | Inr content \<Rightarrow>
          (case parse_model_config E content s of
             (hdfs_models, s1) \<Rightarrow>
               (case sync_models E lroot (model_config hdfs_models) [] s1 of
                  (Inl e, s2) \<Rightarrow> (Some e, s2)
                | (Inr local_models, s2) \<Rightarrow>
                    finish_cycle E lroot (model_config hdfs_models) local_models s2)))"

text \<open>\<open>run_once\<close>: \<open>except Exception\<close> logs what the body raises, \<open>finally\<close> logs the end.\<close>

definition run_once :: "env \<Rightarrow> lpath \<Rightarrow> state \<Rightarrow> state" where
  "run_once E lroot s =
     (case cycle_body E lroot (emit Info_cycle_started s) of
        (Some e, s') \<Rightarrow> emit Info_cycle_finished (emit (Exception_in_cycle e) s')
      | (None, s') \<Rightarrow> emit Info_cycle_finished s')"

section \<open>The scheduler\<close>

record sync_config =
  hdfs_model_config_path :: "string option"
  local_model_root :: string
  sync_interval_minutes :: int
  enable_sync_loop :: bool

text \<open>Line 254 of \<open>sync.py\<close>: the interval in seconds.\<close>

definition interval :: "sync_config \<Rightarrow> int" where
  "interval config = max 60 (sync_interval_minutes config * 60)"

text \<open>The \<open>while True\<close> loop never ends by itself. \<open>cycles\<close> runs its first \<open>n\<close> rounds; the
  environment of round \<open>k\<close> is \<open>Es k\<close>. Beside the state it returns the arguments of the
  calls of \<open>time.sleep\<close>, in order.\<close>

fun cycles :: "(nat \<Rightarrow> env) \<Rightarrow> lpath \<Rightarrow> int \<Rightarrow> nat \<Rightarrow> nat \<Rightarrow> state \<Rightarrow> state \<times> int list" where
  "cycles Es lroot secs k 0 s = (s, [])"
| "cycles Es lroot secs k (Suc n) s =
     (let s1 = emit (Info_sleeping secs) (run_once (Es k) lroot s);
          (s2, sleeps) = cycles Es lroot secs (Suc k) n s1
      in (s2, secs # sleeps))"

definition run_continuously ::
  "(nat \<Rightarrow> env) \<Rightarrow> sync_config \<Rightarrow> lpath \<Rightarrow> nat \<Rightarrow> state \<Rightarrow> state \<times> int list" where
  "run_continuously Es config lroot n s =
     (if \<not> enable_sync_loop config
      then (run_once (Es 0) lroot (emit Warning_loop_disabled s), [])
      else cycles Es lroot (interval config) 0 n
             (emit (Info_starting_loop (interval config)) s))"

section \<open>The registry document as the specification words it\<close>

text \<open>
  Section 4.4 of the specification: one block per model, with the fields in the order
  name, base path, platform, then the labels block if the mapping is non-empty, then
  the policy block if the mapping is non-empty. The labels block lists each pair of a
  label and its integer version, the policy block each pair of a key and its value.
\<close>

definition spec_labels_block :: "(string \<times> int) list \<Rightarrow> string" where
  "spec_labels_block kvs =
     ''  version_labels {'' @ newline
       @ str_join ('','' @ newline)
           (map (\<lambda>kv. ''      '' @ dquote @ fst kv @ dquote @ '': '' @ str_int (snd kv)) kvs)
       @ newline @ ''  }''"

definition spec_policy_block :: "(string \<times> string) list \<Rightarrow> string" where
  "spec_policy_block kvs =
     ''  version_policy {'' @ newline
       @ str_join newline (map (\<lambda>kv. ''      '' @ fst kv @ '': '' @ snd kv) kvs)
       @ newline @ ''  }''"

definition spec_model_block :: "model_entry \<Rightarrow> string list" where
  "spec_model_block m =
     [''  config {'',
      ''    name: '' @ dquote @ name m @ dquote,
      ''    base_path: '' @ dquote @ base_path m @ dquote,
      ''    model_platform: '' @ dquote @ model_platform m @ dquote]
     @ (if items (version_labels m) = [] then []
        else [spec_labels_block (items (version_labels m))])
     @ (if items (version_policy m) = [] then []
        else [spec_policy_block (items (version_policy m))])
     @ [''  }'']"

text \<open>Section 4.3, step 2: a model is recorded when the string of its resolved local
  directory begins with the string of the local model root; its entry carries that
  directory as base path.\<close>

definition accepted_model :: "lpath \<Rightarrow> model_entry \<Rightarrow> bool" where
  "accepted_model lroot m =
     prefix (str_path lroot) (str_path (resolve (joinpath lroot (name m))))"

definition local_entry :: "lpath \<Rightarrow> model_entry \<Rightarrow> model_entry" where
  "local_entry lroot m = m\<lparr>base_path := str_path (resolve (joinpath lroot (name m)))\<rparr>"

section \<open>Notions used to state the properties\<close>

text \<open>The staging path of a transfer to \<open>p\<close>: the value of \<open>tmp_file\<close> when \<open>p\<close> has a
  name.\<close>

definition staging :: "ppath \<Rightarrow> ppath" where
  "staging p = butlast p @ [last p @ ''.tmp'']"

text \<open>The value of \<open>local_file\<close> in the loop of \<open>_sync_directory\<close> for one entry of the
  listing (\<open>/\<close> when \<open>relpath\<close> raises).\<close>

definition local_file_of :: "env \<Rightarrow> string \<Rightarrow> lpath \<Rightarrow> file_info \<Rightarrow> ppath" where
  "local_file_of E hdfs_dir local_dir fi =
     (case relpath (cwd E) (path fi) hdfs_dir of
        Inl _ \<Rightarrow> []
      | Inr rel_path \<Rightarrow> joinpath local_dir rel_path)"

text \<open>The containment test of lines 163 and 193, on strings.\<close>

definition contained :: "lpath \<Rightarrow> ppath \<Rightarrow> bool" where
  "contained lroot p = prefix (str_path lroot) (str_path (resolve p))"

text \<open>The local node at \<open>q\<close> exists and is not older than the remote time \<open>t\<close>.\<close>

definition up_to_date :: "env \<Rightarrow> fs \<Rightarrow> timestamp \<Rightarrow> lpath \<Rightarrow> bool" where
  "up_to_date E f t q =
     (case node_at f q of None \<Rightarrow> False | Some n \<Rightarrow> t \<le> st_mtime E q n)"

text \<open>A transfer is an invocation of \<open>_copy_file_atomically\<close>, which the loop announces
  with the \<open>Copying\<close> line; a failed transfer is one that logs \<open>Failed to copy\<close>.\<close>

fun is_transfer :: "event \<Rightarrow> bool" where
  "is_transfer (Info_copying _ _) = True"
| "is_transfer _ = False"

fun is_copy_failure :: "event \<Rightarrow> bool" where
  "is_copy_failure (Error_copy_failed _ _) = True"
| "is_copy_failure _ = False"

definition transfers :: "state \<Rightarrow> nat" where
  "transfers s = length (filter is_transfer (logs s))"

definition copy_failures :: "state \<Rightarrow> nat" where
  "copy_failures s = length (filter is_copy_failure (logs s))"

section \<open>Example scenarios\<close>

text \<open>An environment in which the remote side has nothing and cannot be read.\<close>

definition silent_env :: env where
  "silent_env =
     \<lparr>hdfs_type = (\<lambda>_. Inr NotFound),
      hdfs_list = (\<lambda>_. Inr []),
      hdfs_open = (\<lambda>_. Inl FileNotFoundError),
      copy_fault = (\<lambda>_. None),
      write_time = (\<lambda>_. 100),
      dir_mtime = (\<lambda>_. 0),
      read_manifest = Inl FileNotFoundError,
      yaml_parse = (\<lambda>_. Inl ValueError),
      cwd = []\<rparr>"

definition empty_state :: state where
  "empty_state = \<lparr>files = [], logs = []\<rparr>"

definition remote_file :: "string \<Rightarrow> timestamp option \<Rightarrow> file_info" where
  "remote_file p t = \<lparr>path = p, ftype = FileT, mtime = t\<rparr>"

text \<open>The model of the registry example in section 8 of the specification.\<close>

definition model_m1 :: model_entry where
  "model_m1 =
     \<lparr>name = ''m1'', base_path = ''/root/m1'', model_platform = ''tensorflow'',
      version_labels = Some [(''stable'', 3)], version_policy = None\<rparr>"

definition model_m2 :: model_entry where
  "model_m2 =
     \<lparr>name = ''../m2'', base_path = ''/hdfs/m2'', model_platform = ''tensorflow'',
      version_labels = Some [], version_policy = Some [(''latest'', ''{ num_versions: 2 }'')]\<rparr>"

definition manifest_m1 :: model_entry where
  "manifest_m1 = model_m1\<lparr>base_path := ''/hdfs/m1''\<rparr>"

text \<open>A local model root \<open>/r\<close> with the model directories \<open>A\<close>, \<open>B\<close> and \<open>C\<close>, an
  earlier \<open>models.config\<close> and a lock marker.\<close>

definition local_abc :: fs where
  "local_abc =
     [([''r''], Dir),
      ([''r'', ''A''], Dir), ([''r'', ''A'', ''f''], File ''a1'' 50),
      ([''r'', ''B''], Dir), ([''r'', ''B'', ''g''], File ''b1'' 50),
      ([''r'', ''C''], Dir), ([''r'', ''C'', ''h''], File ''c1'' 50),
      ([''r'', ''models.config''], File ''old'' 50),
      ([''r'', ''.sync.lock.7''], File [] 60)]"

definition state_abc :: state where
  "state_abc = \<lparr>files = local_abc, logs = []\<rparr>"

text \<open>The manifest can be read, and its content does not parse.\<close>

definition broken_manifest_env :: env where
  "broken_manifest_env =
     silent_env\<lparr>read_manifest := Inr ''model_config: ['',
                yaml_parse := (\<lambda>_. Inl ValueError)\<rparr>"

text \<open>Only the local model root \<open>/r\<close> exists.\<close>

definition state_root_only :: state where
  "state_root_only = \<lparr>files = [([''r''], Dir)], logs = []\<rparr>"

text \<open>The local model root is \<open>/data/models\<close>; the manifest declares one model, named
  \<open>../models_evil\<close>, whose remote directory holds one file.\<close>

definition evil_model :: model_entry where
  "evil_model =
     \<lparr>name = ''../models_evil'', base_path = ''/hdfs/evil'', model_platform = ''tensorflow'',
      version_labels = Some [], version_policy = Some []\<rparr>"

definition escape_env :: env where
  "escape_env =
     \<lparr>hdfs_type = (\<lambda>d. Inr (if d = ''/hdfs/evil'' then Directory else NotFound)),
      hdfs_list = (\<lambda>d. Inr (if d = ''/hdfs/evil''
                              then [remote_file ''/hdfs/evil/payload'' (Some 10)] else [])),
      hdfs_open = (\<lambda>_. Inr ''x''),
      copy_fault = (\<lambda>_. None),
      write_time = (\<lambda>_. 100),
      dir_mtime = (\<lambda>_. 0),
      read_manifest = Inr ''manifest'',
      yaml_parse = (\<lambda>_. Inr [evil_model]),
      cwd = []\<rparr>"

definition state_data_models :: state where
  "state_data_models =
     \<lparr>files = [([''data''], Dir), ([''data'', ''models''], Dir)], logs = []\<rparr>"

text \<open>The remote directory \<open>/hdfs/m\<close> holds the file \<open>x\<close> and the directory \<open>x.tmp\<close> with
  the file \<open>y\<close>; every remote read succeeds.\<close>

definition staging_env :: env where
  "staging_env =
     \<lparr>hdfs_type = (\<lambda>d. Inr (if d = ''/hdfs/m'' then Directory else NotFound)),
      hdfs_list = (\<lambda>d. Inr (if d = ''/hdfs/m''
                              then [remote_file ''/hdfs/m/x.tmp/y'' (Some 10),
                                    remote_file ''/hdfs/m/x'' (Some 10)] else [])),
      hdfs_open = (\<lambda>_. Inr ''new''),
      copy_fault = (\<lambda>_. None),
      write_time = (\<lambda>_. 100),
      dir_mtime = (\<lambda>_. 0),
      read_manifest = Inl FileNotFoundError,
      yaml_parse = (\<lambda>_. Inl ValueError),
      cwd = []\<rparr>"

text \<open>The local copy of that directory after an earlier synchronisation.\<close>

definition staging_dir_state :: state where
  "staging_dir_state =
     \<lparr>files = [([''r''], Dir), ([''r'', ''m''], Dir),
               ([''r'', ''m'', ''x''], File ''old'' 5),
               ([''r'', ''m'', ''x.tmp''], Dir),
               ([''r'', ''m'', ''x.tmp'', ''y''], File ''y1'' 50)],
      logs = []\<rparr>"




text \<open>A remote directory \<open>/hdfs/A\<close> with the files \<open>f\<close> and \<open>sub/g\<close>, and its local copy
  after one synchronisation into the empty root \<open>/r\<close>.\<close>

definition two_files_env :: env where
  "two_files_env =
     \<lparr>hdfs_type = (\<lambda>d. Inr (if d = ''/hdfs/A'' then Directory else NotFound)),
      hdfs_list = (\<lambda>d. Inr (if d = ''/hdfs/A''
                              then [remote_file ''/hdfs/A/f'' (Some 10),
                                    \<lparr>path = ''/hdfs/A/sub'', ftype = Directory, mtime = Some 15\<rparr>,
                                    remote_file ''/hdfs/A/sub/g'' (Some 20)]
                              else [])),
      hdfs_open = (\<lambda>p. Inr (if p = ''/hdfs/A/f'' then ''ff'' else ''gg'')),
      copy_fault = (\<lambda>_. None),
      write_time = (\<lambda>_. 100),
      dir_mtime = (\<lambda>_. 0),
      read_manifest = Inl FileNotFoundError,
      yaml_parse = (\<lambda>_. Inl ValueError),
      cwd = []\<rparr>"

definition two_files_synced :: state where
  "two_files_synced =
     \<lparr>files = [([''r''], Dir), ([''r'', ''A''], Dir),
               ([''r'', ''A'', ''f''], File ''ff'' 100),
               ([''r'', ''A'', ''sub''], Dir),
               ([''r'', ''A'', ''sub'', ''g''], File ''gg'' 100)],
      logs = [Info_copying ''/hdfs/A/f'' [''r'', ''A'', ''f''],
              Info_copying ''/hdfs/A/sub/g'' [''r'', ''A'', ''sub'', ''g'']]\<rparr>"

text \<open>The same directory with one file that reports no modification time.\<close>

definition no_mtime_env :: env where
  "no_mtime_env =
     two_files_env\<lparr>hdfs_list := (\<lambda>d. Inr (if d = ''/hdfs/A''
                                             then [remote_file ''/hdfs/A/f'' None] else []))\<rparr>"

text \<open>The same directory with the files \<open>a.tmp\<close> and \<open>a\<close>, listed in this order: the
  staging path of \<open>a\<close> is the local path of \<open>a.tmp\<close>.\<close>

definition staging_clash_env :: env where
  "staging_clash_env =
     two_files_env\<lparr>hdfs_list := (\<lambda>d. Inr (if d = ''/hdfs/A''
                                       then [remote_file ''/hdfs/A/a.tmp'' (Some 10),
                                             remote_file ''/hdfs/A/a'' (Some 10)] else []))\<rparr>"

text \<open>The same directory with one file, while the local clock is behind the remote
  modification time.\<close>

definition slow_clock_env :: env where
  "slow_clock_env =
     two_files_env\<lparr>hdfs_list := (\<lambda>d. Inr (if d = ''/hdfs/A''
                                       then [remote_file ''/hdfs/A/f'' (Some 10)] else [])),
                   write_time := (\<lambda>_. 5)\<rparr>"

text \<open>Two runs of \<open>_sync_directory\<close> for \<open>/hdfs/A\<close> in succession, starting from the empty
  root \<open>/r\<close>.\<close>

definition first_run :: "env \<Rightarrow> state" where
  "first_run E = snd (sync_directory E [''r''] ''/hdfs/A'' [''r'', ''A''] state_root_only)"

definition second_run :: "env \<Rightarrow> state" where
  "second_run E = snd (sync_directory E [''r''] ''/hdfs/A'' [''r'', ''A''] (first_run E))"

section \<open>The local file system: lemmas\<close>

lemma map_of_fs_put: "map_of (fs_put p n f) = (map_of f)(p \<mapsto> n)"
  by (induction f) (auto simp: fun_eq_iff)

lemma map_of_fs_del: "map_of (fs_del p f) q = (if q = p then None else map_of f q)"
  by (induction f) (auto simp: fs_del_def)

lemma map_of_rmtree: "map_of (rmtree q f) p = (if prefix q p then None else map_of f p)"
  by (induction f) (auto simp: rmtree_def)

lemma node_at_fs_put:
  "p \<noteq> [] \<Longrightarrow> node_at (fs_put p n f) q = (if q = p then Some n else node_at f q)"
  by (simp add: node_at_def map_of_fs_put)

lemma node_at_fs_del:
  "p \<noteq> [] \<Longrightarrow> node_at (fs_del p f) q = (if q = p then None else node_at f q)"
  by (auto simp add: node_at_def map_of_fs_del)

lemma node_at_rmtree:
  "q \<noteq> [] \<Longrightarrow> node_at (rmtree q f) p = (if prefix q p then None else node_at f p)"
  by (auto simp add: node_at_def map_of_rmtree)

lemma prefix_snoc_snoc: "prefix (xs @ [a]) (xs @ [b]) \<longleftrightarrow> a = b"
  by simp

lemma node_at_remove_deleted:
  "node_at (files (remove_deleted lroot expected its s)) p =
     (if \<exists>i \<in> set its. i \<notin> expected \<and> is_dir (files s) (lroot @ [i]) \<and> prefix (lroot @ [i]) p
      then None else node_at (files s) p)"
proof (induction its arbitrary: s)
  case Nil
  then show ?case by simp
next
  case (Cons item rest)
  show ?case
  proof (cases "is_dir (files s) (lroot @ [item]) \<and> item \<notin> expected")
    case False
    then show ?thesis using Cons.IH [of s] by auto
  next
    case True
    let ?s1 = "emit (Info_removed item) (s\<lparr>files := rmtree (lroot @ [item]) (files s)\<rparr>)"
    have f1: "files ?s1 = rmtree (lroot @ [item]) (files s)"
      by (simp add: emit_def)
    have dir1: "is_dir (rmtree (lroot @ [item]) (files s)) (lroot @ [i]) \<longleftrightarrow>
        i \<noteq> item \<and> is_dir (files s) (lroot @ [i])" for i
      by (auto simp add: is_dir_def node_at_rmtree)
    have "remove_deleted lroot expected (item # rest) s = remove_deleted lroot expected rest ?s1"
      using True by simp
    then show ?thesis
      using True by (auto simp add: Cons.IH [of ?s1] dir1 node_at_rmtree f1)
  qed
qed

lemma iterdir_mem:
  assumes "iterdir q f = Inr its" and "map_of f (q @ [i]) = Some n"
  shows "i \<in> set its"
proof -
  from assms(2) have "(q @ [i], n) \<in> set f" by (rule map_of_SomeD)
  moreover from assms(1) have
    "its = map (\<lambda>(p, _). last p) (filter (\<lambda>(p, _). p \<noteq> [] \<and> butlast p = q) f)"
    by (simp add: iterdir_def split: if_splits)
  ultimately show ?thesis by force
qed


lemma resolve_snoc:
  "resolve (xs @ [c]) = (if c = ''..'' then butlast (resolve xs) else resolve xs @ [c])"
  by (simp add: resolve_def)

lemma files_emit [simp]: "files (emit ev s) = files s"
  by (simp add: emit_def)

lemma logs_emit [simp]: "logs (emit ev s) = logs s @ [ev]"
  by (simp add: emit_def)

lemma logs_remove_deleted_mono:
  "set (logs s) \<subseteq> set (logs (remove_deleted lroot expected its s))"
proof (induction its arbitrary: s)
  case Nil
  then show ?case by simp
next
  case (Cons item rest)
  show ?case
    using Cons.IH [of s]
      Cons.IH [of "emit (Info_removed item) (s\<lparr>files := rmtree (lroot @ [item]) (files s)\<rparr>)"]
    by auto
qed

lemma node_at_Nil [simp]: "node_at f [] = Some Dir"
  by (simp add: node_at_def)

lemma is_dir_Nil [simp]: "is_dir f []"
  by (simp add: is_dir_def)

lemma node_at_open_wb:
  assumes "open_wb p t f = Inr g"
  shows "resolve p \<noteq> [] \<and>
         node_at g q = (if q = resolve p then Some (File [] t) else node_at f q)"
proof -
  from assms have ne: "resolve p \<noteq> []"
    by (auto simp add: open_wb_def Let_def split: if_splits)
  from assms have "g = fs_put (resolve p) (File [] t) f"
    by (auto simp add: open_wb_def Let_def split: if_splits)
  with ne show ?thesis by (simp add: node_at_fs_put)
qed

lemma node_at_write_text:
  "write_text p c t f = Inr g \<Longrightarrow>
     resolve p \<noteq> [] \<and> node_at g q = (if q = resolve p then Some (File c t) else node_at f q)"
  using node_at_open_wb [of p t f _ q]
  by (auto simp add: write_text_def node_at_fs_put split: sum.splits)

lemma finish_cycle_node_at:
  assumes "finish_cycle E lroot hms lms s = (r, s')" and "is_dir (files s) lroot"
    and "resolve lroot = lroot"
  shows "\<exists>its. iterdir lroot (files s) = Inr its \<and>
           set (logs s) \<subseteq> set (logs s') \<and>
           (node_at (files s') p =
              node_at (files (remove_deleted lroot (set (map name hms)) its s)) p \<or>
            p = lroot @ [''models.config''] \<and> is_file (files s') p)"
proof -
  from assms(2) obtain its where its: "iterdir lroot (files s) = Inr its"
    by (simp add: iterdir_def)
  let ?s3 = "remove_deleted lroot (set (map name hms)) its s"
  let ?cfg = "lroot @ [''models.config'']"
  have cfg: "resolve ?cfg = ?cfg"
    using assms(3) by (simp add: resolve_snoc)
  show ?thesis
  proof (cases "write_text ?cfg (config_document lms) (write_time E ?cfg) (files ?s3)")
    case (Inl e)
    with assms(1) its have "s' = ?s3"
      by (simp add: finish_cycle_def Let_def)
    with its logs_remove_deleted_mono [of s lroot "set (map name hms)" its] show ?thesis
      by simp
  next
    case (Inr g)
    with assms(1) its have s': "s' = emit Info_config_written (?s3\<lparr>files := g\<rparr>)"
      by (simp add: finish_cycle_def Let_def)
    from node_at_write_text [OF Inr, of p] cfg s' have
      "node_at (files s') p = node_at (files ?s3) p \<or> p = ?cfg \<and> is_file (files s') p"
      by (auto simp add: is_file_def)
    moreover have "set (logs s) \<subseteq> set (logs s')"
      using logs_remove_deleted_mono [of s lroot "set (map name hms)" its] s' by auto
    ultimately show ?thesis using its by blast
  qed
qed

lemma node_at_make_dirs:
  "node_at (foldl (\<lambda>g a. if exists_path g a then g else fs_put a Dir g) f ps) q =
     (if node_at f q = None \<and> q \<in> set ps then Some Dir else node_at f q)"
proof (induction ps arbitrary: f)
  case Nil
  then show ?case by simp
next
  case (Cons a ps)
  show ?case
  proof (cases "exists_path f a")
    case True
    then show ?thesis
      using Cons.IH [of f] by (auto simp add: exists_path_def)
  next
    case False
    then have "a \<noteq> []" by (auto simp add: exists_path_def)
    with False show ?thesis
      using Cons.IH [of "fs_put a Dir f"]
      by (auto simp add: exists_path_def node_at_fs_put)
  qed
qed

lemma node_at_mkdir_parents:
  assumes "mkdir_parents p f = Inr g"
  shows "node_at g q =
           (if node_at f q = None \<and> prefix q (resolve p) then Some Dir else node_at f q)"
proof -
  from assms have
    "g = foldl (\<lambda>g a. if exists_path g a then g else fs_put a Dir g) f (prefixes (resolve p))"
    by (simp add: mkdir_parents_def Let_def split: if_splits)
  then show ?thesis
    by (simp add: node_at_make_dirs in_set_prefixes)
qed

section \<open>The update decision: properties\<close>

text \<open>
  C3. \<open>_should_update_file\<close> says transfer when the remote entry has no modification
  time; otherwise it says transfer when nothing exists at the local path; otherwise it
  says transfer exactly when the remote time is strictly later than the local one, so
  an equal or older remote time means skip. For a regular file the local time is the
  one stored with the file, for a directory the one \<open>stat\<close> reports.
\<close>

theorem should_update_file_decision:
  "(mtime fi = None \<longrightarrow> should_update_file E fi lf f) \<and>
   (mtime fi = Some t \<and> node_at f (resolve lf) = None \<longrightarrow> should_update_file E fi lf f) \<and>
   (mtime fi = Some t \<and> node_at f (resolve lf) = Some (File d l) \<longrightarrow>
      should_update_file E fi lf f = (l < t)) \<and>
   (mtime fi = Some t \<and> node_at f (resolve lf) = Some Dir \<longrightarrow>
      should_update_file E fi lf f = (dir_mtime E (resolve lf) < t))"
  by (simp add: should_update_file_def st_mtime_def)

theorem should_update_file_decision_witness:
  "should_update_file silent_env (remote_file ''/m/a/f'' None) [''r'', ''a'', ''f'']
     [([''r'', ''a'', ''f''], File ''x'' 7)] \<and>
   should_update_file silent_env (remote_file ''/m/a/f'' (Some 5)) [''r'', ''a'', ''f''] [] \<and>
   should_update_file silent_env (remote_file ''/m/a/f'' (Some 5)) [''r'', ''a'', ''f'']
     [([''r'', ''a'', ''f''], File ''x'' 4)] \<and>
   \<not> should_update_file silent_env (remote_file ''/m/a/f'' (Some 5)) [''r'', ''a'', ''f'']
     [([''r'', ''a'', ''f''], File ''x'' 5)] \<and>
   \<not> should_update_file silent_env (remote_file ''/m/a/f'' (Some 5)) [''r'', ''a'', ''f'']
     [([''r'', ''a'', ''f''], File ''x'' 6)] \<and>
   should_update_file silent_env (remote_file ''/m/a/f'' (Some 5)) [''r'', ''a'', ''f'']
     [([''r'', ''a'', ''f''], Dir)]"
  using
    should_update_file_decision [where fi = "remote_file ''/m/a/f'' None" and E = silent_env
      and lf = "[''r'', ''a'', ''f'']" and f = "[([''r'', ''a'', ''f''], File ''x'' 7)]"]
    should_update_file_decision [where fi = "remote_file ''/m/a/f'' (Some 5)" and E = silent_env
      and lf = "[''r'', ''a'', ''f'']" and f = "[]" and t = 5]
    should_update_file_decision [where fi = "remote_file ''/m/a/f'' (Some 5)" and E = silent_env
      and lf = "[''r'', ''a'', ''f'']" and f = "[([''r'', ''a'', ''f''], File ''x'' 4)]" and t = 5
      and d = "''x''" and l = 4]
    should_update_file_decision [where fi = "remote_file ''/m/a/f'' (Some 5)" and E = silent_env
      and lf = "[''r'', ''a'', ''f'']" and f = "[([''r'', ''a'', ''f''], File ''x'' 5)]" and t = 5
      and d = "''x''" and l = 5]
    should_update_file_decision [where fi = "remote_file ''/m/a/f'' (Some 5)" and E = silent_env
      and lf = "[''r'', ''a'', ''f'']" and f = "[([''r'', ''a'', ''f''], File ''x'' 6)]" and t = 5
      and d = "''x''" and l = 6]
    should_update_file_decision [where fi = "remote_file ''/m/a/f'' (Some 5)" and E = silent_env
      and lf = "[''r'', ''a'', ''f'']" and f = "[([''r'', ''a'', ''f''], Dir)]" and t = 5]
  by (simp add: remote_file_def node_at_def resolve_def silent_env_def)

section \<open>Atomic transfer: lemmas\<close>

lemma with_tmp_suffix_staging:
  "with_tmp_suffix p = Inr tmp \<Longrightarrow> p \<noteq> [] \<and> tmp = staging p"
  by (auto simp add: with_tmp_suffix_def staging_def split: if_splits)

lemma unlink_cases:
  assumes "unlink p f = Inr g"
  shows "node_at g q = (if q = resolve p then None else node_at f q)"
proof (cases "node_at f (resolve p)")
  case None
  with assms show ?thesis by (auto simp add: unlink_def Let_def)
next
  case (Some n)
  with assms obtain d t where n: "n = File d t" and g: "g = fs_del (resolve p) f"
    by (cases n) (auto simp add: unlink_def Let_def)
  from Some n have "resolve p \<noteq> []" by auto
  with g show ?thesis by (simp add: node_at_fs_del)
qed

lemma unlink_fails:
  "unlink p f = Inl e \<Longrightarrow> is_dir f (resolve p)"
  by (auto simp add: unlink_def Let_def is_dir_def split: option.splits node.splits)

lemma copy_failed_cases:
  assumes "copy_failed hp e tmp s = (r, s')"
  shows "logs s' = logs s @ [Error_copy_failed hp e] \<and>
         (r = None \<longrightarrow> (\<forall>q. node_at (files s') q =
                              (if q = resolve tmp then None else node_at (files s) q))) \<and>
         (r \<noteq> None \<longrightarrow> files s' = files s \<and> is_dir (files s) (resolve tmp)) \<and>
         (is_dir (files s) (resolve tmp) \<longrightarrow> r \<noteq> None)"
proof (cases "exists_path (files s) (resolve tmp)")
  case False
  with assms show ?thesis
    by (auto simp add: copy_failed_def Let_def exists_path_def is_dir_def)
next
  case True
  show ?thesis
  proof (cases "unlink tmp (files s)")
    case (Inl e')
    with assms True unlink_fails [OF Inl] show ?thesis
      by (auto simp add: copy_failed_def Let_def)
  next
    case (Inr g)
    then have "\<not> is_dir (files s) (resolve tmp)"
      by (auto simp add: unlink_def Let_def is_dir_def split: option.splits node.splits)
    with Inr assms True unlink_cases [OF Inr] show ?thesis
      by (auto simp add: copy_failed_def Let_def)
  qed
qed


lemma node_at_replace_path:
  assumes "replace_path src dst f = Inr g"
  shows "\<exists>d t. node_at f (resolve src) = Some (File d t) \<and> \<not> is_dir f (resolve dst) \<and>
           (\<forall>q. node_at g q =
              (if q = resolve dst then Some (File d t)
               else if q = resolve src then None else node_at f q))"
proof -
  from assms obtain d t where src: "node_at f (resolve src) = Some (File d t)"
    by (auto simp add: replace_path_def Let_def split: option.splits node.splits)
  with assms have nd: "\<not> is_dir f (resolve dst)"
    and g: "g = fs_put (resolve dst) (File d t) (fs_del (resolve src) f)"
    by (auto simp add: replace_path_def Let_def split: if_splits)
  from nd have b: "resolve dst \<noteq> []" by auto
  from src have a: "resolve src \<noteq> []" by auto
  from a b g have "node_at g q =
      (if q = resolve dst then Some (File d t)
       else if q = resolve src then None else node_at f q)" for q
    by (simp add: node_at_fs_put node_at_fs_del)
  with src nd show ?thesis by blast
qed

lemma copy_file_atomically_cases:
  assumes "copy_file_atomically E hp lf s = (r, s')"
  obtains
    (raised_early) "r \<noteq> None" and "logs s' = logs s"
      and "\<And>q n. node_at (files s) q = Some n \<Longrightarrow> node_at (files s') q = Some n"
  | (failed) e where "logs s' = logs s @ [Error_copy_failed hp e]" and "lf \<noteq> []"
      and "\<And>q n. node_at (files s) q = Some n \<Longrightarrow> q \<noteq> resolve (staging lf) \<Longrightarrow>
             node_at (files s') q = Some n"
      and "r = None \<Longrightarrow> node_at (files s') (resolve (staging lf)) = None"
      and "is_dir (files s) (resolve (staging lf)) \<Longrightarrow> is_dir (files s') (resolve (staging lf))"
      and "r \<noteq> None \<Longrightarrow> is_dir (files s) (resolve (staging lf))"
  | (transferred) b where "r = None" and "logs s' = logs s" and "lf \<noteq> []"
      and "hdfs_open E hp = Inr b"
      and "node_at (files s') (resolve lf) =
             Some (File b (write_time E (resolve (staging lf))))"
      and "\<And>q n. node_at (files s) q = Some n \<Longrightarrow> q \<noteq> resolve (staging lf) \<Longrightarrow>
             q \<noteq> resolve lf \<Longrightarrow> node_at (files s') q = Some n"
      and "\<not> is_dir (files s) (resolve lf)" and "\<not> is_dir (files s) (resolve (staging lf))"
proof (cases "mkdir_parents (parent lf) (files s)")
  case (Inl e)
  with assms have "r = Some e" and "s' = s"
    by (simp_all add: copy_file_atomically_def)
  then show ?thesis by (intro raised_early) simp_all
next
  case (Inr f1)
  have keep1: "node_at f1 q = Some n" if "node_at (files s) q = Some n" for q n
    using node_at_mkdir_parents [OF Inr, of q] that by simp
  have dir1: "is_dir (files s) q" if "is_dir f1 q" and "\<not> prefix q (resolve (parent lf))" for q
    using node_at_mkdir_parents [OF Inr, of q] that by (auto simp add: is_dir_def split: if_splits)
  let ?s1 = "s\<lparr>files := f1\<rparr>"
  show ?thesis
  proof (cases "lf = []")
    case True
    with assms Inr have "r = Some ValueError" and "s' = ?s1"
      by (simp_all add: copy_file_atomically_def with_tmp_suffix_def)
    with keep1 show ?thesis by (intro raised_early) simp_all
  next
    case False
    then have tmp: "with_tmp_suffix lf = Inr (staging lf)"
      by (simp add: with_tmp_suffix_def staging_def)
    let ?a = "resolve (staging lf)"
    let ?t = "write_time E ?a"
    have "?a = resolve (parent lf) @ [last lf @ ''.tmp'']"
      by (simp add: staging_def parent_def resolve_snoc)
    then have np: "\<not> prefix ?a (resolve (parent lf))"
      by (simp add: prefix_def)
    have before: "is_dir (files s) ?a" if "is_dir f1 ?a"
      using dir1 [OF that np] .
    have handler: thesis
      if h: "copy_failed hp e (staging lf) s2 = (r, s')"
        and l2: "logs s2 = logs s"
        and k2: "\<And>q n. node_at (files s) q = Some n \<Longrightarrow> q \<noteq> ?a \<Longrightarrow> node_at (files s2) q = Some n"
        and d2: "is_dir (files s) ?a \<Longrightarrow> is_dir (files s2) ?a"
        and d3: "is_dir (files s2) ?a \<Longrightarrow> is_dir (files s) ?a"
      for e s2
    proof -
      note c = copy_failed_cases [OF h]
      show thesis
      proof (rule failed [of e])
        show "logs s' = logs s @ [Error_copy_failed hp e]" using c l2 by simp
        show "lf \<noteq> []" by (rule False)
        show "node_at (files s') q = Some n"
          if "node_at (files s) q = Some n" and "q \<noteq> ?a" for q n
          using c k2 [OF that] that(2) by (cases r) auto
        show "node_at (files s') ?a = None" if "r = None"
          using c that by simp
        show "is_dir (files s') ?a" if "is_dir (files s) ?a"
        proof (cases r)
          case None
          with c d2 [OF that] show ?thesis by simp
        next
          case (Some e')
          with c d2 [OF that] show ?thesis by simp
        qed
        show "is_dir (files s) ?a" if "r \<noteq> None"
          using c that d3 by simp
      qed
    qed
    show ?thesis
    proof (cases "hdfs_open E hp")
      case (Inl e)
      with assms Inr tmp have "copy_failed hp e (staging lf) ?s1 = (r, s')"
        by (simp add: copy_file_atomically_def)
      then show ?thesis
      proof (rule handler)
        show "is_dir (files ?s1) ?a" if "is_dir (files s) ?a"
          using keep1 [of ?a Dir] that by (simp add: is_dir_def)
        show "is_dir (files s) ?a" if "is_dir (files ?s1) ?a"
          using before that by simp
      qed (simp_all add: keep1)
    next
      case bytes: (Inr b)
      show ?thesis
      proof (cases "open_wb (staging lf) ?t f1")
        case (Inl e)
        with assms Inr tmp bytes have "copy_failed hp e (staging lf) ?s1 = (r, s')"
          by (simp add: copy_file_atomically_def Let_def)
        then show ?thesis
        proof (rule handler)
          show "is_dir (files ?s1) ?a" if "is_dir (files s) ?a"
            using keep1 [of ?a Dir] that by (simp add: is_dir_def)
          show "is_dir (files s) ?a" if "is_dir (files ?s1) ?a"
            using before that by simp
        qed (simp_all add: keep1)
      next
        case opened: (Inr f2)
        from opened have nd1: "\<not> is_dir f1 ?a"
          by (auto simp add: open_wb_def Let_def split: if_splits)
        then have nd0: "\<not> is_dir (files s) ?a"
          using keep1 [of ?a Dir] by (auto simp add: is_dir_def)
        note n2 = node_at_open_wb [OF opened]
        then have a: "?a \<noteq> []" by simp
        show ?thesis
        proof (cases "copy_fault E hp")
          case (Some k)
          let ?s2 = "?s1\<lparr>files := fs_put ?a (File (take k b) ?t) f2\<rparr>"
          from assms Inr tmp bytes opened Some have
            "copy_failed hp OSError (staging lf) ?s2 = (r, s')"
            by (simp add: copy_file_atomically_def Let_def)
          then show ?thesis
          proof (rule handler)
            show "node_at (files ?s2) q = Some n"
              if "node_at (files s) q = Some n" and "q \<noteq> ?a" for q n
              using keep1 [OF that(1)] n2 [of q] that(2) a by (simp add: node_at_fs_put)
            show "is_dir (files s) ?a" if "is_dir (files ?s2) ?a"
              using that a by (simp add: is_dir_def node_at_fs_put)
          qed (simp_all add: nd0)
        next
          case None
          let ?f3 = "fs_put ?a (File b ?t) f2"
          have n3: "node_at ?f3 q = (if q = ?a then Some (File b ?t) else node_at f1 q)" for q
            using n2 [of q] a by (simp add: node_at_fs_put)
          show ?thesis
          proof (cases "replace_path (staging lf) lf ?f3")
            case (Inl e)
            with assms Inr tmp bytes opened None have
              "copy_failed hp e (staging lf) (?s1\<lparr>files := ?f3\<rparr>) = (r, s')"
              by (simp add: copy_file_atomically_def Let_def)
            then show ?thesis
            proof (rule handler)
              show "node_at (files (?s1\<lparr>files := ?f3\<rparr>)) q = Some n"
                if "node_at (files s) q = Some n" and "q \<noteq> ?a" for q n
                using keep1 [OF that(1)] n3 [of q] that(2) by simp
              show "is_dir (files s) ?a" if "is_dir (files (?s1\<lparr>files := ?f3\<rparr>)) ?a"
                using that by (simp add: is_dir_def n3)
            qed (simp_all add: nd0)
          next
            case (Inr f4)
            with assms \<open>mkdir_parents (parent lf) (files s) = Inr f1\<close> tmp bytes opened None
            have r: "r = None" and s': "s' = ?s1\<lparr>files := f4\<rparr>"
              by (simp_all add: copy_file_atomically_def Let_def)
            from node_at_replace_path [OF Inr] n3 [of ?a] obtain
              nd3: "\<not> is_dir ?f3 (resolve lf)" and
              n4: "\<And>q. node_at f4 q =
                     (if q = resolve lf then Some (File b ?t)
                      else if q = ?a then None else node_at ?f3 q)"
              by auto
            have ndl: "\<not> is_dir (files s) (resolve lf)"
            proof
              assume "is_dir (files s) (resolve lf)"
              then have "node_at f1 (resolve lf) = Some Dir"
                using keep1 [of "resolve lf" Dir] by (simp add: is_dir_def)
              with nd3 nd1 show False
                by (auto simp add: is_dir_def n3 split: if_splits)
            qed
            show ?thesis
            proof (rule transferred [of b])
              show "node_at (files s') (resolve lf) = Some (File b ?t)"
                using s' n4 [of "resolve lf"] by simp
              show "node_at (files s') q = Some n"
                if "node_at (files s) q = Some n" and "q \<noteq> ?a" and "q \<noteq> resolve lf" for q n
                using s' n4 [of q] n3 [of q] keep1 [OF that(1)] that(2,3) by simp
            qed (simp_all add: r s' False bytes ndl nd0)
          qed
        qed
      qed
    qed
  qed
qed


lemma should_update_file_up_to_date:
  "should_update_file E fi lf f =
     (case mtime fi of None \<Rightarrow> True | Some t \<Rightarrow> \<not> up_to_date E f t (resolve lf))"
  by (auto simp add: should_update_file_def up_to_date_def split: option.splits)

lemma copy_file_atomically_dirs:
  assumes "copy_file_atomically E hp lf s = (r, s')" and "is_dir (files s) q"
  shows "is_dir (files s') q"
  using assms(1)
proof (cases rule: copy_file_atomically_cases)
  case raised_early
  with assms(2) show ?thesis by (simp add: is_dir_def)
next
  case (failed e)
  with assms(2) show ?thesis
    by (cases "q = resolve (staging lf)") (simp_all add: is_dir_def)
next
  case (transferred b)
  with assms(2) have "q \<noteq> resolve lf" and "q \<noteq> resolve (staging lf)" by auto
  with transferred(6) [of q Dir] assms(2) show ?thesis by (simp add: is_dir_def)
qed

lemma copy_file_atomically_up_to_date:
  assumes "copy_file_atomically E hp lf s = (r, s')" and "up_to_date E (files s) t q"
    and "\<And>w. t \<le> write_time E w" and "q \<noteq> resolve (staging lf)"
  shows "up_to_date E (files s') t q"
proof -
  from assms(2) obtain n where n: "node_at (files s) q = Some n" and t: "t \<le> st_mtime E q n"
    by (auto simp add: up_to_date_def split: option.splits)
  from assms(1) show ?thesis
  proof (cases rule: copy_file_atomically_cases)
    case raised_early
    from raised_early(3) [OF n] t show ?thesis by (simp add: up_to_date_def)
  next
    case (failed e)
    from failed(3) [OF n assms(4)] t show ?thesis by (simp add: up_to_date_def)
  next
    case (transferred b)
    show ?thesis
    proof (cases "q = resolve lf")
      case True
      with transferred(5) assms(3) show ?thesis
        by (simp add: up_to_date_def st_mtime_def)
    next
      case False
      from transferred(6) [OF n assms(4) False] t show ?thesis by (simp add: up_to_date_def)
    qed
  qed
qed

lemma copy_failures_emit [simp]:
  "copy_failures (emit ev s) = copy_failures s + (if is_copy_failure ev then 1 else 0)"
  by (simp add: copy_failures_def)

lemma transfers_emit [simp]:
  "transfers (emit ev s) = transfers s + (if is_transfer ev then 1 else 0)"
  by (simp add: transfers_def)

lemma copy_file_atomically_failures:
  assumes "copy_file_atomically E hp lf s = (r, s')"
  shows "copy_failures s \<le> copy_failures s'"
  using assms
  by (cases rule: copy_file_atomically_cases) (simp_all add: copy_failures_def)


lemma copy_file_atomically_announces_nothing:
  assumes "copy_file_atomically E hp lf s = (r, s')" and "Info_copying p q \<in> set (logs s')"
  shows "Info_copying p q \<in> set (logs s)"
  using assms
  by (cases rule: copy_file_atomically_cases) auto

text \<open>When a transfer logs a failure and no directory sits at the staging path, no
  exception leaves the function, the staging path is empty afterwards, and a node
  that existed at the destination is still the same.\<close>

lemma atomic_transfer_failure:
  assumes "copy_file_atomically E hp lf s = (r, s')" and "logs s' \<noteq> logs s"
    and "\<not> is_dir (files s) (resolve (staging lf))"
  shows "r = None \<and> node_at (files s') (resolve (staging lf)) = None \<and>
         (\<forall>n. node_at (files s) (resolve lf) = Some n \<longrightarrow>
              node_at (files s') (resolve lf) = Some n)"
  using assms(1)
proof (cases rule: copy_file_atomically_cases)
  case raised_early
  with assms(2) show ?thesis by simp
next
  case (failed e)
  from failed(2) have lf: "lf = butlast lf @ [last lf]" by simp
  have st: "resolve (staging lf) = resolve (butlast lf) @ [last lf @ ''.tmp'']"
    by (simp add: staging_def resolve_snoc)
  have "resolve lf \<noteq> resolve (staging lf)"
  proof (cases "last lf = ''..''")
    case True
    with resolve_snoc [of "butlast lf" "last lf"] lf
    have "resolve lf = butlast (resolve (butlast lf))" by simp
    then have "length (resolve lf) \<le> length (resolve (butlast lf))" by simp
    moreover from st have "length (resolve (staging lf)) = Suc (length (resolve (butlast lf)))"
      by simp
    ultimately show ?thesis by auto
  next
    case False
    with resolve_snoc [of "butlast lf" "last lf"] lf
    have "resolve lf = resolve (butlast lf) @ [last lf]" by simp
    with st show ?thesis by simp
  qed
  moreover have "r = None"
    using failed(6) assms(3) by (cases r) auto
  ultimately show ?thesis using failed(3,4) by auto
next
  case (transferred b)
  with assms(2) show ?thesis by simp
qed

section \<open>Atomic transfer: a directory at the staging path\<close>

text \<open>
  C2 at a local directory that holds the file \<open>x\<close> and the directory \<open>x.tmp\<close>, as a
  synchronisation of the remote directory of \<open>staging_env\<close> leaves it. The transfer of \<open>x\<close>
  stages at \<open>x.tmp\<close>: opening it for writing fails, the handler finds that the path
  exists and calls \<open>unlink\<close>, and \<open>unlink\<close> on a directory raises. The exception leaves
  \<open>_copy_file_atomically\<close>, and it leaves \<open>_sync_directory\<close> when the same remote directory
  is synchronised into an empty local root.
\<close>

theorem atomic_transfer_staging_directory:
  "copy_file_atomically staging_env ''/hdfs/m/x'' [''r'', ''m'', ''x''] staging_dir_state =
     (Some IsADirectoryError,
      staging_dir_state\<lparr>logs := [Error_copy_failed ''/hdfs/m/x'' IsADirectoryError]\<rparr>) \<and>
   fst (sync_directory staging_env [''r''] ''/hdfs/m'' [''r'', ''m''] state_root_only) =
     Some IsADirectoryError"
  by code_simp

section \<open>The directory reconciler: lemmas\<close>

lemma sync_files_step:
  assumes "sync_files E lroot hdir ldir (fi # rest) s = (r, s')"
  obtains
    (skip) "ftype fi \<noteq> FileT" and "sync_files E lroot hdir ldir rest s = (r, s')"
  | (bad_path) e where "ftype fi = FileT" and "relpath (cwd E) (path fi) hdir = Inl e"
      and "r = Some e" and "s' = s"
  | (suspicious) rel where "ftype fi = FileT" and "relpath (cwd E) (path fi) hdir = Inr rel"
      and "\<not> contained lroot (local_file_of E hdir ldir fi)"
      and "sync_files E lroot hdir ldir rest (emit (Warning_suspicious_path rel) s) = (r, s')"
  | (current) rel where "ftype fi = FileT" and "relpath (cwd E) (path fi) hdir = Inr rel"
      and "contained lroot (local_file_of E hdir ldir fi)"
      and "\<not> should_update_file E fi (local_file_of E hdir ldir fi) (files s)"
      and "sync_files E lroot hdir ldir rest
             (emit (Debug_up_to_date (local_file_of E hdir ldir fi)) s) = (r, s')"
  | (copy_raised) rel e where "ftype fi = FileT" and "relpath (cwd E) (path fi) hdir = Inr rel"
      and "contained lroot (local_file_of E hdir ldir fi)"
      and "should_update_file E fi (local_file_of E hdir ldir fi) (files s)"
      and "copy_file_atomically E (path fi) (local_file_of E hdir ldir fi)
             (emit (Info_copying (path fi) (local_file_of E hdir ldir fi)) s) = (Some e, s')"
      and "r = Some e"
  | (copied) rel s1 where "ftype fi = FileT" and "relpath (cwd E) (path fi) hdir = Inr rel"
      and "contained lroot (local_file_of E hdir ldir fi)"
      and "should_update_file E fi (local_file_of E hdir ldir fi) (files s)"
      and "copy_file_atomically E (path fi) (local_file_of E hdir ldir fi)
             (emit (Info_copying (path fi) (local_file_of E hdir ldir fi)) s) = (None, s1)"
      and "sync_files E lroot hdir ldir rest s1 = (r, s')"
proof (cases "ftype fi = FileT")
  case False
  with assms show ?thesis by (intro skip) simp_all
next
  case is_file: True
  show ?thesis
  proof (cases "relpath (cwd E) (path fi) hdir")
    case (Inl e)
    with assms is_file show ?thesis by (intro bad_path [of e]) simp_all
  next
    case (Inr rel)
    then have lf: "local_file_of E hdir ldir fi = joinpath ldir rel"
      by (simp add: local_file_of_def)
    let ?lf = "local_file_of E hdir ldir fi"
    show ?thesis
    proof (cases "contained lroot ?lf")
      case False
      with assms is_file Inr lf show ?thesis
        by (intro suspicious [of rel]) (simp_all add: contained_def startswith_def Let_def)
    next
      case inside: True
      show ?thesis
      proof (cases "should_update_file E fi ?lf (files s)")
        case False
        with assms is_file Inr lf inside show ?thesis
          by (intro current [of rel]) (simp_all add: contained_def startswith_def Let_def)
      next
        case True
        obtain r1 s1 where c: "copy_file_atomically E (path fi) ?lf
             (emit (Info_copying (path fi) ?lf) s) = (r1, s1)"
          by (cases "copy_file_atomically E (path fi) ?lf (emit (Info_copying (path fi) ?lf) s)")
        show ?thesis
        proof (cases r1)
          case None
          with assms is_file Inr lf inside True c show ?thesis
            by (intro copied [of rel s1]) (simp_all add: contained_def startswith_def Let_def)
        next
          case (Some e)
          with assms is_file Inr lf inside True c show ?thesis
            by (intro copy_raised [of rel e]) (simp_all add: contained_def startswith_def Let_def)
        qed
      qed
    qed
  qed
qed

lemma sync_files_dirs:
  "sync_files E lroot hdir ldir fis s = (r, s') \<Longrightarrow> is_dir (files s) q \<Longrightarrow> is_dir (files s') q"
proof (induction fis arbitrary: s)
  case Nil
  then show ?case by simp
next
  case (Cons fi rest)
  from Cons.prems(1) show ?case
  proof (cases rule: sync_files_step)
    case skip
    from Cons.IH [OF skip(2) Cons.prems(2)] show ?thesis .
  next
    case (bad_path e)
    with Cons.prems(2) show ?thesis by simp
  next
    case (suspicious rel)
    from Cons.IH [OF suspicious(4)] Cons.prems(2) show ?thesis by simp
  next
    case (current rel)
    from Cons.IH [OF current(5)] Cons.prems(2) show ?thesis by simp
  next
    case (copy_raised rel e)
    from copy_file_atomically_dirs [OF copy_raised(5)] Cons.prems(2) show ?thesis by simp
  next
    case (copied rel s1)
    from copy_file_atomically_dirs [OF copied(5)] Cons.prems(2) have "is_dir (files s1) q" by simp
    from Cons.IH [OF copied(6) this] show ?thesis .
  qed
qed

lemma sync_files_failures:
  "sync_files E lroot hdir ldir fis s = (r, s') \<Longrightarrow> copy_failures s \<le> copy_failures s'"
proof (induction fis arbitrary: s)
  case Nil
  then show ?case by simp
next
  case (Cons fi rest)
  from Cons.prems(1) show ?case
  proof (cases rule: sync_files_step)
    case skip
    from Cons.IH [OF skip(2)] show ?thesis .
  next
    case (bad_path e)
    then show ?thesis by simp
  next
    case (suspicious rel)
    from Cons.IH [OF suspicious(4)] show ?thesis by simp
  next
    case (current rel)
    from Cons.IH [OF current(5)] show ?thesis by simp
  next
    case (copy_raised rel e)
    from copy_file_atomically_failures [OF copy_raised(5)] show ?thesis by simp
  next
    case (copied rel s1)
    from copy_file_atomically_failures [OF copied(5)] Cons.IH [OF copied(6)]
    show ?thesis by simp
  qed
qed

lemma sync_files_up_to_date:
  assumes "sync_files E lroot hdir ldir fis s = (r, s')" and "up_to_date E (files s) t q"
    and "\<And>w. t \<le> write_time E w"
    and "\<And>fi. fi \<in> set fis \<Longrightarrow> ftype fi = FileT \<Longrightarrow>
           q \<noteq> resolve (staging (local_file_of E hdir ldir fi))"
  shows "up_to_date E (files s') t q"
  using assms(1,2,4)
proof (induction fis arbitrary: s)
  case Nil
  then show ?case by simp
next
  case (Cons fi rest)
  have rest: "q \<noteq> resolve (staging (local_file_of E hdir ldir fj))"
    if "fj \<in> set rest" and "ftype fj = FileT" for fj
    using Cons.prems(3) [of fj] that by simp
  have first: "q \<noteq> resolve (staging (local_file_of E hdir ldir fi))" if "ftype fi = FileT"
    using Cons.prems(3) [of fi] that by simp
  from Cons.prems(1) show ?case
  proof (cases rule: sync_files_step)
    case skip
    from skip(2) Cons.prems(2) rest show ?thesis by (rule Cons.IH)
  next
    case (bad_path e)
    with Cons.prems(2) show ?thesis by simp
  next
    case (suspicious rel)
    have "up_to_date E (files (emit (Warning_suspicious_path rel) s)) t q"
      using Cons.prems(2) by simp
    with suspicious(4) show ?thesis using rest by (rule Cons.IH)
  next
    case (current rel)
    have "up_to_date E (files (emit (Debug_up_to_date (local_file_of E hdir ldir fi)) s)) t q"
      using Cons.prems(2) by simp
    with current(5) show ?thesis using rest by (rule Cons.IH)
  next
    case (copy_raised rel e)
    have "up_to_date E
            (files (emit (Info_copying (path fi) (local_file_of E hdir ldir fi)) s)) t q"
      using Cons.prems(2) by simp
    with copy_raised(5) show ?thesis
      using assms(3) first [OF copy_raised(1)] by (rule copy_file_atomically_up_to_date)
  next
    case (copied rel s1)
    have "up_to_date E
            (files (emit (Info_copying (path fi) (local_file_of E hdir ldir fi)) s)) t q"
      using Cons.prems(2) by simp
    with copied(5) have "up_to_date E (files s1) t q"
      using assms(3) first [OF copied(1)] by (rule copy_file_atomically_up_to_date)
    with copied(6) show ?thesis using rest by (rule Cons.IH)
  qed
qed


lemma sync_files_establishes:
  assumes "sync_files E lroot hdir ldir fis s = (None, s')"
    and "copy_failures s' = copy_failures s"
    and "\<And>fj. fj \<in> set fis \<Longrightarrow> ftype fj = FileT \<Longrightarrow>
           \<exists>t. mtime fj = Some t \<and> (\<forall>w. t \<le> write_time E w)"
    and "\<And>fj fk. fj \<in> set fis \<Longrightarrow> fk \<in> set fis \<Longrightarrow> ftype fj = FileT \<Longrightarrow> ftype fk = FileT \<Longrightarrow>
           resolve (local_file_of E hdir ldir fj) \<noteq> resolve (staging (local_file_of E hdir ldir fk))"
    and "fi \<in> set fis" and "ftype fi = FileT"
  shows "(\<exists>rel. relpath (cwd E) (path fi) hdir = Inr rel) \<and>
         (contained lroot (local_file_of E hdir ldir fi) \<longrightarrow>
            (\<exists>t. mtime fi = Some t \<and>
                 up_to_date E (files s') t (resolve (local_file_of E hdir ldir fi))))"
  using assms(1,2,3,4,5)
proof (induction fis arbitrary: s)
  case Nil
  then show ?case by simp
next
  case (Cons f0 rest)
  let ?goal = "(\<exists>rel. relpath (cwd E) (path fi) hdir = Inr rel) \<and>
         (contained lroot (local_file_of E hdir ldir fi) \<longrightarrow>
            (\<exists>t. mtime fi = Some t \<and>
                 up_to_date E (files s') t (resolve (local_file_of E hdir ldir fi))))"
  have times: "\<exists>t. mtime fj = Some t \<and> (\<forall>w. t \<le> write_time E w)"
    if "fj \<in> set rest" and "ftype fj = FileT" for fj
    using Cons.prems(3) [of fj] that by simp
  have apart: "resolve (local_file_of E hdir ldir fj) \<noteq> resolve (staging (local_file_of E hdir ldir fk))"
    if "fj \<in> set rest" and "fk \<in> set rest" and "ftype fj = FileT" and "ftype fk = FileT" for fj fk
    using Cons.prems(4) [of fj fk] that by simp
  have head_apart: "resolve (local_file_of E hdir ldir f0) \<noteq> resolve (staging (local_file_of E hdir ldir fk))"
    if "ftype f0 = FileT" and "fk \<in> set rest" and "ftype fk = FileT" for fk
    using Cons.prems(4) [of f0 fk] that by simp
  have later: ?goal
    if run: "sync_files E lroot hdir ldir rest s1 = (None, s')"
      and same: "copy_failures s1 = copy_failures s" and mem: "fi \<in> set rest" for s1
  proof -
    from same Cons.prems(2) have "copy_failures s' = copy_failures s1" by simp
    with run show ?thesis using times apart mem by (rule Cons.IH)
  qed
  have kept: ?goal
    if run: "sync_files E lroot hdir ldir rest s1 = (None, s')"
      and rel: "relpath (cwd E) (path f0) hdir = Inr rel"
      and isf: "ftype f0 = FileT"
      and now: "mtime f0 = Some t" "up_to_date E (files s1) t (resolve (local_file_of E hdir ldir f0))"
      and eq: "fi = f0" for s1 rel t
  proof -
    from Cons.prems(3) [of f0] isf now(1) have "\<And>w. t \<le> write_time E w" by simp
    with run now(2) have
      "up_to_date E (files s') t (resolve (local_file_of E hdir ldir f0))"
      using head_apart [OF isf] by (rule sync_files_up_to_date)
    with rel now(1) eq show ?thesis by blast
  qed
  from Cons.prems(1) show ?case
  proof (cases rule: sync_files_step)
    case skip
    with assms(6) have "fi \<noteq> f0" by auto
    with Cons.prems(5) have "fi \<in> set rest" by simp
    with skip(2) show ?thesis by (intro later [of s]) simp_all
  next
    case (bad_path e)
    then show ?thesis by simp
  next
    case (suspicious rel)
    show ?thesis
    proof (cases "fi = f0")
      case True
      with suspicious show ?thesis by simp
    next
      case False
      with Cons.prems(5) have "fi \<in> set rest" by simp
      with suspicious(4) show ?thesis
        by (intro later [of "emit (Warning_suspicious_path rel) s"]) simp_all
    qed
  next
    case (current rel)
    show ?thesis
    proof (cases "fi = f0")
      case True
      from current(4) obtain t where "mtime f0 = Some t"
        and "up_to_date E (files s) t (resolve (local_file_of E hdir ldir f0))"
        by (auto simp add: should_update_file_up_to_date split: option.splits)
      with current(1,2,5) True show ?thesis
        by (intro kept [of "emit (Debug_up_to_date (local_file_of E hdir ldir f0)) s" rel t])
          simp_all
    next
      case False
      with Cons.prems(5) have "fi \<in> set rest" by simp
      with current(5) show ?thesis
        by (intro later [of "emit (Debug_up_to_date (local_file_of E hdir ldir f0)) s"])
          simp_all
    qed
  next
    case (copy_raised rel e)
    then show ?thesis by simp
  next
    case (copied rel s1)
    let ?lf = "local_file_of E hdir ldir f0"
    let ?s0 = "emit (Info_copying (path f0) ?lf) s"
    from copy_file_atomically_failures [OF copied(5)] sync_files_failures [OF copied(6)]
      Cons.prems(2)
    have same: "copy_failures s1 = copy_failures s" by simp
    show ?thesis
    proof (cases "fi = f0")
      case False
      with Cons.prems(5) have "fi \<in> set rest" by simp
      with copied(6) same show ?thesis by (intro later [of s1])
    next
      case True
      from Cons.prems(3) [of f0] copied(1) obtain t where
        t: "mtime f0 = Some t" and ahead: "\<And>w. t \<le> write_time E w" by auto
      from copied(5) have "up_to_date E (files s1) t (resolve ?lf)"
      proof (cases rule: copy_file_atomically_cases)
        case raised_early
        then show ?thesis by simp
      next
        case (failed e)
        with same show ?thesis by (simp add: copy_failures_def)
      next
        case (transferred b)
        with ahead show ?thesis by (simp add: up_to_date_def st_mtime_def)
      qed
      with copied(6,2,1) t True show ?thesis by (intro kept [of s1 rel t])
    qed
  qed
qed

lemma sync_files_second_run:
  assumes "\<And>fi. fi \<in> set fis \<Longrightarrow> ftype fi = FileT \<Longrightarrow>
      (\<exists>rel. relpath (cwd E) (path fi) hdir = Inr rel) \<and>
      (contained lroot (local_file_of E hdir ldir fi) \<longrightarrow>
         (\<exists>t. mtime fi = Some t \<and>
              up_to_date E (files s) t (resolve (local_file_of E hdir ldir fi))))"
  shows "\<exists>s'. sync_files E lroot hdir ldir fis s = (None, s') \<and> files s' = files s \<and>
              transfers s' = transfers s \<and> copy_failures s' = copy_failures s"
  using assms
proof (induction fis arbitrary: s)
  case Nil
  then show ?case by simp
next
  case (Cons f0 rest)
  have rest: "\<exists>s'. sync_files E lroot hdir ldir rest s1 = (None, s') \<and> files s' = files s1 \<and>
              transfers s' = transfers s1 \<and> copy_failures s' = copy_failures s1"
    if "files s1 = files s" for s1
  proof (rule Cons.IH)
    fix fi
    assume "fi \<in> set rest" and "ftype fi = FileT"
    with Cons.prems [of fi] that show
      "(\<exists>rel. relpath (cwd E) (path fi) hdir = Inr rel) \<and>
       (contained lroot (local_file_of E hdir ldir fi) \<longrightarrow>
         (\<exists>t. mtime fi = Some t \<and>
              up_to_date E (files s1) t (resolve (local_file_of E hdir ldir fi))))"
      by simp
  qed
  obtain r s' where run: "sync_files E lroot hdir ldir (f0 # rest) s = (r, s')"
    by (cases "sync_files E lroot hdir ldir (f0 # rest) s")
  have stale: False
    if "ftype f0 = FileT" and "contained lroot (local_file_of E hdir ldir f0)"
      and "should_update_file E f0 (local_file_of E hdir ldir f0) (files s)"
    using Cons.prems [of f0] that by (auto simp add: should_update_file_up_to_date)
  from run show ?case
  proof (cases rule: sync_files_step)
    case skip
    with rest [of s] run show ?thesis by simp
  next
    case (bad_path e)
    with Cons.prems [of f0] show ?thesis by simp
  next
    case (suspicious rel)
    with rest [of "emit (Warning_suspicious_path rel) s"] run show ?thesis by simp
  next
    case (current rel)
    with rest [of "emit (Debug_up_to_date (local_file_of E hdir ldir f0)) s"] run
    show ?thesis by simp
  next
    case (copy_raised rel e)
    with stale show ?thesis by blast
  next
    case (copied rel s1)
    with stale show ?thesis by blast
  qed
qed


lemma make_dirs_present:
  "list_all (exists_path f) ps \<Longrightarrow>
     foldl (\<lambda>g a. if exists_path g a then g else fs_put a Dir g) f ps = f"
  by (induction ps) simp_all

lemma mkdir_parents_present:
  assumes "\<And>q. prefix q (resolve p) \<Longrightarrow> is_dir f q"
  shows "mkdir_parents p f = Inr f"
proof -
  have dirs: "is_dir f q" if "q \<in> set (prefixes (resolve p))" for q
    using assms that by (simp add: in_set_prefixes)
  have "\<not> is_file f (resolve p)"
    using assms [of "resolve p"] by (simp add: is_file_def is_dir_def)
  moreover have "\<not> list_ex (is_file f) (prefixes (resolve p))"
    using dirs by (auto simp add: list_ex_iff is_file_def is_dir_def)
  moreover have "list_all (exists_path f) (prefixes (resolve p))"
    using dirs by (auto simp add: list_all_iff exists_path_def is_dir_def)
  ultimately show ?thesis
    by (simp add: mkdir_parents_def Let_def make_dirs_present)
qed

lemma mkdir_parents_dirs:
  assumes "mkdir_parents p f = Inr g" and "prefix q (resolve p)"
  shows "is_dir g q"
proof -
  from assms(1) have "\<not> list_ex (is_file f) (prefixes (resolve p))"
    by (simp add: mkdir_parents_def Let_def split: if_splits)
  with assms(2) have "\<not> is_file f q"
    by (auto simp add: list_ex_iff in_set_prefixes)
  with node_at_mkdir_parents [OF assms(1), of q] assms(2) show ?thesis
    by (auto simp add: is_dir_def is_file_def split: option.splits node.splits)
qed



section \<open>The directory reconciler: properties\<close>




section \<open>Repeated reconciliation\<close>

text \<open>
  C5, as the code has it. Let a first run of \<open>_sync_directory\<close> return without an
  exception and without a failed transfer, for a listing in which every file entry
  carries a modification time that no reading of the local clock precedes and in which
  no entry's local path is the staging path of an entry. Then a second run against the
  same remote tree returns without an exception, performs no transfer and leaves the
  local files as they are.
\<close>

theorem second_run_transfers_nothing:
  assumes run1: "sync_directory E lroot hdir ldir s = (None, s1)"
    and nofail: "copy_failures s1 = copy_failures s"
    and listing: "hdfs_list E hdir = Inr listing"
    and times: "\<forall>fi \<in> set listing. ftype fi = FileT \<longrightarrow>
                  (\<exists>t. mtime fi = Some t \<and> (\<forall>w. t \<le> write_time E w))"
    and apart: "\<forall>fi \<in> set listing. \<forall>fj \<in> set listing. ftype fi = FileT \<and> ftype fj = FileT \<longrightarrow>
                  resolve (local_file_of E hdir ldir fi) \<noteq>
                    resolve (staging (local_file_of E hdir ldir fj))"
  shows "\<exists>s2. sync_directory E lroot hdir ldir s1 = (None, s2) \<and> files s2 = files s1 \<and>
              transfers s2 = transfers s1"
proof -
  from run1 obtain f1 where mk: "mkdir_parents ldir (files s) = Inr f1"
    by (cases "mkdir_parents ldir (files s)") (simp_all add: sync_directory_def)
  from run1 mk obtain ty where ty: "hdfs_type E hdir = Inr ty"
    by (cases "hdfs_type E hdir") (simp_all add: sync_directory_def Let_def)
  let ?s0 = "s\<lparr>files := f1\<rparr>"
  have dirs0: "is_dir (files ?s0) q" if "prefix q (resolve ldir)" for q
    using mkdir_parents_dirs [OF mk that] by simp
  show ?thesis
  proof (cases "ty = Directory")
    case False
    with run1 mk ty have s1: "s1 = emit (Warning_missing_hdfs_dir hdir) ?s0"
      by (simp add: sync_directory_def Let_def)
    with dirs0 have "mkdir_parents ldir (files s1) = Inr (files s1)"
      by (intro mkdir_parents_present) simp
    with ty False show ?thesis
      by (simp add: sync_directory_def Let_def)
  next
    case True
    with run1 mk ty listing have files1: "sync_files E lroot hdir ldir listing ?s0 = (None, s1)"
      by (simp add: sync_directory_def Let_def)
    have "is_dir (files s1) q" if "prefix q (resolve ldir)" for q
      using sync_files_dirs [OF files1 dirs0 [OF that]] .
    then have mk2: "mkdir_parents ldir (files s1) = Inr (files s1)"
      by (rule mkdir_parents_present)
    have nofail0: "copy_failures s1 = copy_failures ?s0"
      using nofail by (simp add: copy_failures_def)
    have "(\<exists>rel. relpath (cwd E) (path fi) hdir = Inr rel) \<and>
          (contained lroot (local_file_of E hdir ldir fi) \<longrightarrow>
             (\<exists>t. mtime fi = Some t \<and>
                  up_to_date E (files s1) t (resolve (local_file_of E hdir ldir fi))))"
      if "fi \<in> set listing" and "ftype fi = FileT" for fi
      using files1 nofail0 _ _ that
    proof (rule sync_files_establishes)
      show "\<exists>t. mtime fj = Some t \<and> (\<forall>w. t \<le> write_time E w)"
        if "fj \<in> set listing" and "ftype fj = FileT" for fj
        using times that by blast
      show "resolve (local_file_of E hdir ldir fj) \<noteq> resolve (staging (local_file_of E hdir ldir fk))"
        if "fj \<in> set listing" and "fk \<in> set listing" and "ftype fj = FileT" and "ftype fk = FileT"
        for fj fk
        using apart that by blast
    qed
    from sync_files_second_run [of listing E hdir lroot ldir s1, OF this]
    obtain s2 where "sync_files E lroot hdir ldir listing s1 = (None, s2)"
      and "files s2 = files s1" and "transfers s2 = transfers s1"
      by blast
    with mk2 ty True listing show ?thesis
      by (simp add: sync_directory_def Let_def)
  qed
qed


theorem second_run_transfers_nothing_witness:
  "sync_directory two_files_env [''r''] ''/hdfs/A'' [''r'', ''A''] state_root_only =
     (None, two_files_synced) \<and>
   copy_failures two_files_synced = copy_failures state_root_only \<and>
   transfers two_files_synced = 2 \<and>
   (\<exists>s2. sync_directory two_files_env [''r''] ''/hdfs/A'' [''r'', ''A''] two_files_synced =
            (None, s2) \<and>
         files s2 = files two_files_synced \<and> transfers s2 = transfers two_files_synced)"
proof -
  let ?listing = "[remote_file ''/hdfs/A/f'' (Some 10),
                   \<lparr>path = ''/hdfs/A/sub'', ftype = Directory, mtime = Some 15\<rparr>,
                   remote_file ''/hdfs/A/sub/g'' (Some 20)]"
  have h1: "sync_directory two_files_env [''r''] ''/hdfs/A'' [''r'', ''A''] state_root_only =
     (None, two_files_synced)"
    by code_simp
  have h2: "copy_failures two_files_synced = copy_failures state_root_only"
    by code_simp
  have h3: "hdfs_list two_files_env ''/hdfs/A'' = Inr ?listing"
    by code_simp
  have h4: "\<forall>fi \<in> set ?listing. ftype fi = FileT \<longrightarrow>
              (\<exists>t. mtime fi = Some t \<and> (\<forall>w. t \<le> write_time two_files_env w))"
    by (simp add: remote_file_def two_files_env_def)
  have f: "resolve (local_file_of two_files_env ''/hdfs/A'' [''r'', ''A'']
             (remote_file ''/hdfs/A/f'' (Some 10))) = [''r'', ''A'', ''f'']"
    by code_simp
  have g: "resolve (local_file_of two_files_env ''/hdfs/A'' [''r'', ''A'']
             (remote_file ''/hdfs/A/sub/g'' (Some 20))) = [''r'', ''A'', ''sub'', ''g'']"
    by code_simp
  have ft: "resolve (staging (local_file_of two_files_env ''/hdfs/A'' [''r'', ''A'']
             (remote_file ''/hdfs/A/f'' (Some 10)))) = [''r'', ''A'', ''f.tmp'']"
    by code_simp
  have gt: "resolve (staging (local_file_of two_files_env ''/hdfs/A'' [''r'', ''A'']
             (remote_file ''/hdfs/A/sub/g'' (Some 20)))) = [''r'', ''A'', ''sub'', ''g.tmp'']"
    by code_simp
  have h5: "\<forall>fi \<in> set ?listing. \<forall>fj \<in> set ?listing. ftype fi = FileT \<and> ftype fj = FileT \<longrightarrow>
              resolve (local_file_of two_files_env ''/hdfs/A'' [''r'', ''A''] fi) \<noteq>
                resolve (staging (local_file_of two_files_env ''/hdfs/A'' [''r'', ''A''] fj))"
    by (simp add: f g ft gt)
  have h6: "transfers two_files_synced = 2"
    by code_simp
  from second_run_transfers_nothing [OF h1 h2 h3 h4 h5] h1 h2 h6 show ?thesis by blast
qed

text \<open>C5 as the specification states it fails. A remote file without a
  modification time is transferred again by the second run; so is a file whose staging
  path served another entry in the first run, and a file whose remote modification
  time is ahead of the local clock. In each case the first run transfers everything
  without a failure.\<close>

theorem second_run_counterexample:
  "transfers (first_run no_mtime_env) = 1 \<and>
   copy_failures (first_run no_mtime_env) = 0 \<and>
   transfers (second_run no_mtime_env) = 2 \<and>
   transfers (first_run staging_clash_env) = 2 \<and>
   copy_failures (first_run staging_clash_env) = 0 \<and>
   transfers (second_run staging_clash_env) = 3 \<and>
   transfers (first_run slow_clock_env) = 1 \<and>
   copy_failures (first_run slow_clock_env) = 0 \<and>
   transfers (second_run slow_clock_env) = 2"
  by code_simp

section \<open>Path containment: the check on strings\<close>

text \<open>The reconciler announces a transfer only for a local path that passes the test of
  line 163: the string of the resolved path begins with the string of the root.\<close>

lemma sync_files_transfers_contained:
  "sync_files E lroot hdir ldir fis s = (r, s') \<Longrightarrow> Info_copying p q \<in> set (logs s') \<Longrightarrow>
     Info_copying p q \<in> set (logs s) \<or> contained lroot q"
proof (induction fis arbitrary: s)
  case Nil
  then show ?case by simp
next
  case (Cons fi rest)
  from Cons.prems(1) show ?case
  proof (cases rule: sync_files_step)
    case skip
    from Cons.IH [OF skip(2) Cons.prems(2)] show ?thesis .
  next
    case (bad_path e)
    with Cons.prems(2) show ?thesis by simp
  next
    case (suspicious rel)
    from Cons.IH [OF suspicious(4) Cons.prems(2)] show ?thesis by simp
  next
    case (current rel)
    from Cons.IH [OF current(5) Cons.prems(2)] show ?thesis by simp
  next
    case (copy_raised rel e)
    from copy_file_atomically_announces_nothing [OF copy_raised(5) Cons.prems(2)] copy_raised(3)
    show ?thesis by auto
  next
    case (copied rel s1)
    from Cons.IH [OF copied(6) Cons.prems(2)]
      copy_file_atomically_announces_nothing [OF copied(5), of p q] copied(3)
    show ?thesis by auto
  qed
qed

text \<open>
  C1 at the manifest of \<open>escape_env\<close>. The local model root is \<open>/data/models\<close> and the
  model is named \<open>../models_evil\<close>. Its directory resolves to \<open>/data/models_evil\<close>, which
  is not under the root, but the string \<open>/data/models_evil\<close> begins with the string
  \<open>/data/models\<close>: line 193 accepts the name, no error is logged, and the cycle writes
  the remote file to \<open>/data/models_evil/payload\<close>, outside the local model root.
\<close>

theorem path_containment_escape:
  "resolve (joinpath [''data'', ''models''] (name evil_model)) = [''data'', ''models_evil''] \<and>
   \<not> prefix [''data'', ''models''] [''data'', ''models_evil''] \<and>
   startswith (str_path [''data'', ''models_evil'']) (str_path [''data'', ''models'']) \<and>
   Error_invalid_model_name ''../models_evil''
     \<notin> set (logs (run_once escape_env [''data'', ''models''] state_data_models)) \<and>
   node_at (files state_data_models) [''data'', ''models_evil'', ''payload''] = None \<and>
   node_at (files (run_once escape_env [''data'', ''models''] state_data_models))
     [''data'', ''models_evil'', ''payload''] = Some (File ''x'' 100)"
  by code_simp

section \<open>The registry document: properties\<close>

lemma truthy_items: "truthy d = (items d \<noteq> [])"
  by (simp add: truthy_def items_def split: option.split list.split)

lemma format_version_labels_spec:
  "items labels \<noteq> [] \<Longrightarrow> format_version_labels labels = spec_labels_block (items labels)"
  by (simp add: format_version_labels_def spec_labels_block_def split_def truthy_items)

lemma format_version_policy_spec:
  "items policy \<noteq> [] \<Longrightarrow> format_version_policy policy = spec_policy_block (items policy)"
  by (simp add: format_version_policy_def spec_policy_block_def split_def truthy_items)

lemma append_model_spec: "append_model ls m = ls @ spec_model_block m"
  by (simp add: append_model_def spec_model_block_def Let_def
      format_version_labels_spec format_version_policy_spec truthy_items)

lemma foldl_append_model:
  "foldl append_model ls ms = ls @ concat (map spec_model_block ms)"
  by (induction ms arbitrary: ls) (simp_all add: append_model_spec)

lemma sync_models_entries:
  "sync_models E lroot ms acc s = (Inr lms, s') \<Longrightarrow>
     lms = acc @ map (local_entry lroot) (filter (accepted_model lroot) ms)"
proof (induction ms arbitrary: acc s)
  case Nil
  then show ?case by simp
next
  case (Cons m ms)
  show ?case
  proof (cases "accepted_model lroot m")
    case False
    with Cons.prems have
      "sync_models E lroot ms acc (emit (Error_invalid_model_name (name m)) s) = (Inr lms, s')"
      by (simp add: accepted_model_def startswith_def Let_def)
    from Cons.IH [OF this] False show ?thesis by simp
  next
    case True
    obtain r s1 where sd:
      "sync_directory E lroot (base_path m) (resolve (joinpath lroot (name m)))
         (emit (Info_processing (name m)) s) = (r, s1)"
      by (cases "sync_directory E lroot (base_path m) (resolve (joinpath lroot (name m)))
         (emit (Info_processing (name m)) s)")
    show ?thesis
    proof (cases r)
      case (Some e)
      with Cons.prems True sd show ?thesis
        by (simp add: accepted_model_def startswith_def Let_def)
    next
      case None
      with Cons.prems True sd have
        "sync_models E lroot ms (acc @ [local_entry lroot m]) s1 = (Inr lms, s')"
        by (simp add: accepted_model_def startswith_def Let_def local_entry_def)
      from Cons.IH [OF this] True show ?thesis by simp
    qed
  qed
qed

text \<open>
  C7. The lines of the generated document are the opening line, then one block per
  recorded model in the order of the list, then the closing line; the block of a model
  holds name, base path and platform in this order, then the labels block exactly when
  the labels mapping is non-empty, then the policy block exactly when the policy
  mapping is non-empty. The recorded models are the accepted models of the manifest in
  the order in which the manifest declares them.
\<close>

theorem registry_rendering:
  "config_lines local_models =
     [''model_config_list {''] @ concat (map spec_model_block local_models) @ [''}''] \<and>
   config_document local_models = str_join newline (config_lines local_models) \<and>
   (sync_models E lroot hdfs_models [] s = (Inr local_models, s') \<longrightarrow>
      local_models = map (local_entry lroot) (filter (accepted_model lroot) hdfs_models))"
  using sync_models_entries [of E lroot hdfs_models "[]" s local_models s']
  by (simp add: config_lines_def foldl_append_model config_document_def)

theorem registry_rendering_witness:
  "sync_models silent_env [''root''] [manifest_m1, model_m2] [] empty_state =
     (Inr [model_m1],
      \<lparr>files = [([''root''], Dir), ([''root'', ''m1''], Dir)],
       logs = [Info_processing ''m1'', Warning_missing_hdfs_dir ''/hdfs/m1'',
               Error_invalid_model_name ''../m2'']\<rparr>) \<and>
   [model_m1] = map (local_entry [''root''])
                  (filter (accepted_model [''root'']) [manifest_m1, model_m2]) \<and>
   config_lines [model_m1] =
     [''model_config_list {'',
      ''  config {'',
      ''    name: '' @ dquote @ ''m1'' @ dquote,
      ''    base_path: '' @ dquote @ ''/root/m1'' @ dquote,
      ''    model_platform: '' @ dquote @ ''tensorflow'' @ dquote,
      ''  version_labels {'' @ newline @ ''      '' @ dquote @ ''stable'' @ dquote @ '': 3''
        @ newline @ ''  }'',
      ''  }'',
      ''}'']"
proof -
  have run: "sync_models silent_env [''root''] [manifest_m1, model_m2] [] empty_state =
     (Inr [model_m1],
      \<lparr>files = [([''root''], Dir), ([''root'', ''m1''], Dir)],
       logs = [Info_processing ''m1'', Warning_missing_hdfs_dir ''/hdfs/m1'',
               Error_invalid_model_name ''../m2'']\<rparr>)"
    by code_simp
  have block: "spec_model_block model_m1 =
     [''  config {'',
      ''    name: '' @ dquote @ ''m1'' @ dquote,
      ''    base_path: '' @ dquote @ ''/root/m1'' @ dquote,
      ''    model_platform: '' @ dquote @ ''tensorflow'' @ dquote,
      ''  version_labels {'' @ newline @ ''      '' @ dquote @ ''stable'' @ dquote @ '': 3''
        @ newline @ ''  }'',
      ''  }'']"
    by code_simp
  note rendering =
    registry_rendering [of "[model_m1]" silent_env "[''root'']" "[manifest_m1, model_m2]"
      empty_state
      "\<lparr>files = [([''root''], Dir), ([''root'', ''m1''], Dir)],
        logs = [Info_processing ''m1'', Warning_missing_hdfs_dir ''/hdfs/m1'',
                Error_invalid_model_name ''../m2'']\<rparr>"]
  from rendering run have entries:
    "[model_m1] = map (local_entry [''root''])
                    (filter (accepted_model [''root'']) [manifest_m1, model_m2])"
    by blast
  from rendering have
    "config_lines [model_m1] =
       [''model_config_list {''] @ concat (map spec_model_block [model_m1]) @ [''}'']"
    by blast
  then have lines: "config_lines [model_m1] =
     [''model_config_list {'',
      ''  config {'',
      ''    name: '' @ dquote @ ''m1'' @ dquote,
      ''    base_path: '' @ dquote @ ''/root/m1'' @ dquote,
      ''    model_platform: '' @ dquote @ ''tensorflow'' @ dquote,
      ''  version_labels {'' @ newline @ ''      '' @ dquote @ ''stable'' @ dquote @ '': 3''
        @ newline @ ''  }'',
      ''  }'',
      ''}'']"
    by (simp add: block)
  from run entries lines show ?thesis by blast
qed

section \<open>Deletion of models: properties\<close>

text \<open>
  C10. The deletion step of a cycle, whatever names the manifest declares and whatever
  entries it walks over, leaves every regular file directly under the local model root
  as it is; the generated \<open>models.config\<close> and the lock markers are such files.
\<close>

theorem deletion_keeps_files:
  "node_at (files s) (lroot @ [n]) = Some (File d t) \<Longrightarrow>
     node_at (files (remove_deleted lroot expected entries s)) (lroot @ [n]) = Some (File d t)"
  by (auto simp add: node_at_remove_deleted is_dir_def)


theorem deletion_keeps_files_witness:
  "node_at (files state_abc) ([''r''] @ [''.sync.lock.7'']) = Some (File [] 60) \<and>
   iterdir [''r''] (files state_abc) =
     Inr [''A'', ''B'', ''C'', ''models.config'', ''.sync.lock.7''] \<and>
   node_at (files (remove_deleted [''r''] {''A''}
       [''A'', ''B'', ''C'', ''models.config'', ''.sync.lock.7''] state_abc))
     ([''r''] @ [''.sync.lock.7'']) = Some (File [] 60)"
proof -
  have present: "node_at (files state_abc) ([''r''] @ [''.sync.lock.7'']) = Some (File [] 60)"
    by code_simp
  have listing: "iterdir [''r''] (files state_abc) =
     Inr [''A'', ''B'', ''C'', ''models.config'', ''.sync.lock.7'']"
    by code_simp
  from deletion_keeps_files [OF present] present listing show ?thesis by blast
qed

text \<open>
  C9. When the manifest is fetched and its content fails to parse, the cycle goes on
  with an empty model list and logs the failure, and its deletion step removes every
  directory directly under the local model root with everything below it. (The root is
  a resolved path and exists as a directory, as the constructor leaves it.)
\<close>

theorem parse_failure_removes_all_models:
  assumes "read_manifest E = Inr content" and "yaml_parse E content = Inl e"
    and "resolve lroot = lroot" and "is_dir (files s) lroot"
    and "is_dir (files s) (lroot @ [n])"
  shows "fst (parse_model_config E content s) = \<lparr>model_config = []\<rparr> \<and>
         Error_parse_failed \<in> set (logs (run_once E lroot s)) \<and>
         \<not> is_dir (files (run_once E lroot s)) (lroot @ [n]) \<and>
         (n \<noteq> ''models.config'' \<longrightarrow>
            node_at (files (run_once E lroot s)) (lroot @ [n]) = None) \<and>
         (strict_prefix (lroot @ [n]) p \<longrightarrow> node_at (files (run_once E lroot s)) p = None)"
proof -
  let ?s1 = "emit Error_parse_failed (emit Info_cycle_started s)"
  obtain r s' where fin: "finish_cycle E lroot [] [] ?s1 = (r, s')"
    by (cases "finish_cycle E lroot [] [] ?s1")
  have body: "cycle_body E lroot (emit Info_cycle_started s) = (r, s')"
    using assms(1,2) fin by (simp add: cycle_body_def parse_model_config_def)
  have final: "files (run_once E lroot s) = files s'"
    using body by (simp add: run_once_def split: option.splits)
  have logs: "set (logs s') \<subseteq> set (logs (run_once E lroot s))"
    using body by (auto simp add: run_once_def split: option.splits)
  have dirs: "is_dir (files ?s1) lroot" "is_dir (files ?s1) (lroot @ [n])"
    using assms(4,5) by simp_all
  have gone: "node_at (files s') q = None \<or> q = lroot @ [''models.config''] \<and> is_file (files s') q"
    if "prefix (lroot @ [n]) q" for q
  proof -
    from finish_cycle_node_at [OF fin dirs(1) assms(3), of q] obtain its where
      its: "iterdir lroot (files ?s1) = Inr its" and
      alt: "node_at (files s') q = node_at (files (remove_deleted lroot {} its ?s1)) q \<or>
            q = lroot @ [''models.config''] \<and> is_file (files s') q"
      by auto
    from dirs(2) have "map_of (files ?s1) (lroot @ [n]) = Some Dir"
      by (simp add: is_dir_def node_at_def)
    from iterdir_mem [OF its this] have "n \<in> set its" .
    with dirs(2) that have "node_at (files (remove_deleted lroot {} its ?s1)) q = None"
      by (auto simp add: node_at_remove_deleted)
    with alt show ?thesis by auto
  qed
  from finish_cycle_node_at [OF fin dirs(1) assms(3), of "[]"]
  have "Error_parse_failed \<in> set (logs s')" by auto
  with logs have "Error_parse_failed \<in> set (logs (run_once E lroot s))" by blast
  moreover have "fst (parse_model_config E content s) = \<lparr>model_config = []\<rparr>"
    using assms(2) by (simp add: parse_model_config_def)
  moreover have "\<not> is_dir (files (run_once E lroot s)) (lroot @ [n])"
    using gone [of "lroot @ [n]"] by (auto simp add: final is_dir_def is_file_def)
  moreover have "n \<noteq> ''models.config'' \<longrightarrow>
      node_at (files (run_once E lroot s)) (lroot @ [n]) = None"
    using gone [of "lroot @ [n]"] by (auto simp add: final)
  moreover have "strict_prefix (lroot @ [n]) p \<longrightarrow> node_at (files (run_once E lroot s)) p = None"
    using gone [of p] by (auto simp add: final strict_prefix_def)
  ultimately show ?thesis by blast
qed

theorem parse_failure_removes_all_models_witness:
  "read_manifest broken_manifest_env = Inr ''model_config: ['' \<and>
   yaml_parse broken_manifest_env ''model_config: ['' = Inl ValueError \<and>
   resolve [''r''] = [''r''] \<and>
   is_dir (files state_abc) [''r''] \<and>
   is_dir (files state_abc) ([''r''] @ [''B'']) \<and>
   strict_prefix ([''r''] @ [''B'']) [''r'', ''B'', ''g''] \<and>
   \<not> is_dir (files (run_once broken_manifest_env [''r''] state_abc)) ([''r''] @ [''B'']) \<and>
   node_at (files (run_once broken_manifest_env [''r''] state_abc)) ([''r''] @ [''B'']) = None \<and>
   node_at (files (run_once broken_manifest_env [''r''] state_abc)) [''r'', ''B'', ''g''] = None"
proof -
  have h1: "read_manifest broken_manifest_env = Inr ''model_config: [''"
    by code_simp
  have h2: "yaml_parse broken_manifest_env ''model_config: ['' = Inl ValueError"
    by code_simp
  have h3: "resolve [''r''] = [''r'']"
    by code_simp
  have h4: "is_dir (files state_abc) [''r'']"
    by code_simp
  have h5: "is_dir (files state_abc) ([''r''] @ [''B''])"
    by code_simp
  have h6: "strict_prefix ([''r''] @ [''B'']) [''r'', ''B'', ''g'']"
    by simp
  from parse_failure_removes_all_models [OF h1 h2 h3 h4 h5, of "[''r'', ''B'', ''g'']"]
    h1 h2 h3 h4 h5 h6
  show ?thesis by simp
qed





section \<open>The scheduler: properties\<close>

lemma cycles_sleeps: "snd (cycles Es lroot secs k n s) = replicate n secs"
  by (induction n arbitrary: k s) (simp_all add: Let_def split_beta)

text \<open>
  C8. In continuous mode every wait between two cycles is the interval computed at
  line 254: the configured minutes times 60, and never less than 60 seconds; a
  configured value of zero or less gives 60 seconds.
\<close>

theorem interval_floor:
  "enable_sync_loop config \<Longrightarrow>
     snd (run_continuously Es config lroot n s) = replicate n (interval config) \<and>
     interval config = max 60 (sync_interval_minutes config * 60) \<and>
     60 \<le> interval config \<and>
     (sync_interval_minutes config \<le> 0 \<longrightarrow> interval config = 60)"
  by (simp add: run_continuously_def cycles_sleeps interval_def)

theorem interval_floor_witness:
  "snd (run_continuously (\<lambda>_. silent_env)
         \<lparr>hdfs_model_config_path = Some ''/m/models.yml'', local_model_root = ''/r'',
          sync_interval_minutes = 0, enable_sync_loop = True\<rparr>
         [''r''] 3 empty_state) = [60, 60, 60]"
  using interval_floor [of
      "\<lparr>hdfs_model_config_path = Some ''/m/models.yml'', local_model_root = ''/r'',
        sync_interval_minutes = 0, enable_sync_loop = True\<rparr>"
      "\<lambda>_. silent_env" "[''r'']" 3 empty_state]
  by (simp add: numeral_3_eq_3)

end
